theory Spec2Isabelle
  imports Main
begin

section \<open>The remote engine\<close>

text \<open>
  The module \<^verbatim>\<open>ovirt_affinity_labels.py\<close> talks to a remote engine through an SDK
  connection. The engine is modelled as a record: the table of virtual machines, the
  table of hosts, the affinity labels with the ids assigned to them, and a predicate
  telling which remote calls raise. Every remote call is an \<open>event\<close>; a computation
  returns its result (an error or a value), the engine it leaves behind and the list of
  calls it issued, in order. A call that raises leaves the changes made before it in place.
\<close>

datatype kind = Vms | Hosts

record entity =
  ent_id :: string
  ent_name :: string
  ent_cluster :: string

record label =
  lab_id :: string
  lab_name :: string
  lab_vms :: "string list"
  lab_hosts :: "string list"

datatype event =
    CreateConnection
  | CloseConnection
  | FollowLink kind string
  | GetEntity kind string
  | FollowCluster kind string
  | ListSearch kind string
  | AddAssignment kind string string
  | RemoveAssignment kind string string
  | ListLabels string
  | AddLabel string
  | RemoveLabel string

datatype error = RemoteError event | NotFound string | UnboundLocalError

record engine =
  vms_tab :: "entity list"
  hosts_tab :: "entity list"
  labels :: "label list"
  fault :: "event \<Rightarrow> bool"

type_synonym 'a io = "engine \<Rightarrow> (error + 'a) \<times> engine \<times> event list"

definition io_return :: "'a \<Rightarrow> 'a io" where
  "io_return x = (\<lambda>e. (Inr x, e, []))"

definition io_raise :: "error \<Rightarrow> 'a io" where
  "io_raise err = (\<lambda>e. (Inl err, e, []))"

definition io_bind :: "'a io \<Rightarrow> ('a \<Rightarrow> 'b io) \<Rightarrow> 'b io" where
  "io_bind f g = (\<lambda>e. case f e of
       (Inl err, e1, evs1) \<Rightarrow> (Inl err, e1, evs1)
     | (Inr x, e1, evs1) \<Rightarrow> (case g x e1 of (r, e2, evs2) \<Rightarrow> (r, e2, evs1 @ evs2)))"

text \<open>A \<^verbatim>\<open>for\<close> loop whose body may raise: the loop stops at the first exception.\<close>

primrec for_each :: "'a list \<Rightarrow> ('a \<Rightarrow> 's \<Rightarrow> 's io) \<Rightarrow> 's \<Rightarrow> 's io" where
  "for_each [] body s = io_return s"
| "for_each (x # xs) body s = io_bind (body x s) (for_each xs body)"

text \<open>A remote call is recorded, and raises when the engine says so.\<close>

definition request :: "event \<Rightarrow> unit io" where
  "request ev = (\<lambda>e. (if fault e ev then Inl (RemoteError ev) else Inr (), e, [ev]))"

definition is_mutation :: "event \<Rightarrow> bool" where
  "is_mutation ev = (case ev of
       AddAssignment k l i \<Rightarrow> True
     | RemoveAssignment k l i \<Rightarrow> True
     | AddLabel n \<Rightarrow> True
     | RemoveLabel l \<Rightarrow> True
     | _ \<Rightarrow> False)"

definition tab :: "kind \<Rightarrow> engine \<Rightarrow> entity list" where
  "tab k e = (case k of Vms \<Rightarrow> vms_tab e | Hosts \<Rightarrow> hosts_tab e)"

definition assigned :: "kind \<Rightarrow> label \<Rightarrow> string list" where
  "assigned k l = (case k of Vms \<Rightarrow> lab_vms l | Hosts \<Rightarrow> lab_hosts l)"

definition set_assigned :: "kind \<Rightarrow> string list \<Rightarrow> label \<Rightarrow> label" where
  "set_assigned k ids l = (case k of Vms \<Rightarrow> l\<lparr>lab_vms := ids\<rparr> | Hosts \<Rightarrow> l\<lparr>lab_hosts := ids\<rparr>)"

definition find_label :: "string \<Rightarrow> engine \<Rightarrow> label option" where
  "find_label lid e = find (\<lambda>l. lab_id l = lid) (labels e)"

definition find_entity :: "kind \<Rightarrow> string \<Rightarrow> engine \<Rightarrow> entity option" where
  "find_entity k i e = find (\<lambda>x. ent_id x = i) (tab k e)"

definition update_label :: "string \<Rightarrow> (label \<Rightarrow> label) \<Rightarrow> engine \<Rightarrow> engine" where
  "update_label lid f e = e\<lparr>labels := map (\<lambda>l. if lab_id l = lid then f l else l) (labels e)\<rparr>"

text \<open>
  \<^verbatim>\<open>self._connection.follow_link(getattr(entity, name))\<close>: the ids of the entities
  of one kind that the label is assigned to at the time of the call.
\<close>

definition follow_link_objs :: "kind \<Rightarrow> string \<Rightarrow> string list io" where
  "follow_link_objs k lid =
     io_bind (request (FollowLink k lid)) (\<lambda>_ e.
       case find_label lid e of
         None \<Rightarrow> io_raise (NotFound lid) e
       | Some l \<Rightarrow> io_return (assigned k l) e)"

text \<open>\<^verbatim>\<open>objs_service.service(obj.id).get()\<close>: the full record of one entity.\<close>

definition service_get :: "kind \<Rightarrow> string \<Rightarrow> entity io" where
  "service_get k i =
     io_bind (request (GetEntity k i)) (\<lambda>_ e.
       case find_entity k i e of
         None \<Rightarrow> io_raise (NotFound i) e
       | Some x \<Rightarrow> io_return x e)"

text \<open>\<^verbatim>\<open>self._connection.follow_link(labeled_entity.cluster).name\<close>.\<close>

definition follow_link_cluster :: "kind \<Rightarrow> entity \<Rightarrow> string io" where
  "follow_link_cluster k x =
     io_bind (request (FollowCluster k (ent_id x))) (\<lambda>_. io_return (ent_cluster x))"

text \<open>
  The search string of line 141, \<^verbatim>\<open>'name=%s and cluster=%s' % (obj, cluster)\<close>.
  Python formats a missing cluster as \<^verbatim>\<open>None\<close>.
\<close>

definition str_cluster :: "string option \<Rightarrow> string" where
  "str_cluster c = (case c of None \<Rightarrow> ''None'' | Some s \<Rightarrow> s)"

definition search_query :: "string \<Rightarrow> string option \<Rightarrow> string" where
  "search_query obj c = ''name='' @ obj @ '' and cluster='' @ str_cluster c"

text \<open>
  \<^verbatim>\<open>objs_service.list(search=...)\<close>. The engine answers the query with the
  entities of the table whose name and whose cluster's name are the two given strings,
  in table order.
\<close>

definition matching :: "kind \<Rightarrow> string \<Rightarrow> string option \<Rightarrow> engine \<Rightarrow> entity list" where
  "matching k obj c e = filter (\<lambda>x. ent_name x = obj \<and> ent_cluster x = str_cluster c) (tab k e)"

definition service_list :: "kind \<Rightarrow> string \<Rightarrow> string option \<Rightarrow> entity list io" where
  "service_list k obj c =
     io_bind (request (ListSearch k (search_query obj c))) (\<lambda>_ e. io_return (matching k obj c e) e)"

text \<open>\<^verbatim>\<open>label_service.add(vm=Vm(id=...))\<close> and \<^verbatim>\<open>label_service.service(obj_id).remove()\<close>.
  The engine keeps the ids assigned to a label without repetition.\<close>

definition assign :: "kind \<Rightarrow> string \<Rightarrow> string \<Rightarrow> engine \<Rightarrow> engine" where
  "assign k lid i e = update_label lid (\<lambda>l. set_assigned k (List.insert i (assigned k l)) l) e"

definition unassign :: "kind \<Rightarrow> string \<Rightarrow> string \<Rightarrow> engine \<Rightarrow> engine" where
  "unassign k lid i e = update_label lid (\<lambda>l. set_assigned k (removeAll i (assigned k l)) l) e"

definition label_service_add :: "kind \<Rightarrow> string \<Rightarrow> string \<Rightarrow> unit io" where
  "label_service_add k lid i =
     io_bind (request (AddAssignment k lid i)) (\<lambda>_ e.
       case find_label lid e of
         None \<Rightarrow> io_raise (NotFound lid) e
       | Some l \<Rightarrow> io_return () (assign k lid i e))"

definition label_service_remove :: "kind \<Rightarrow> string \<Rightarrow> string \<Rightarrow> unit io" where
  "label_service_remove k lid i =
     io_bind (request (RemoveAssignment k lid i)) (\<lambda>_ e.
       case find_label lid e of
         None \<Rightarrow> io_raise (NotFound lid) e
       | Some l \<Rightarrow> io_return () (unassign k lid i e))"

section \<open>The module\<close>

datatype state = Present | Absent

record module =
  p_name :: string
  p_state :: state
  p_cluster :: "string option"
  p_vms :: "string list option"
  p_hosts :: "string list option"
  check_mode :: bool
  changed :: bool

definition param :: "kind \<Rightarrow> module \<Rightarrow> string list option" where
  "param k m = (case k of Vms \<Rightarrow> p_vms m | Hosts \<Rightarrow> p_hosts m)"

definition set_param :: "kind \<Rightarrow> string list option \<Rightarrow> module \<Rightarrow> module" where
  "set_param k v m = (case k of Vms \<Rightarrow> m\<lparr>p_vms := v\<rparr> | Hosts \<Rightarrow> m\<lparr>p_hosts := v\<rparr>)"

type_synonym names = "(string \<times> string list) list"

text \<open>\<^verbatim>\<open>objs_names[n].append(i)\<close> on a \<^verbatim>\<open>defaultdict(list)\<close>, keys in insertion order.\<close>

fun append_id :: "string \<Rightarrow> string \<Rightarrow> names \<Rightarrow> names" where
  "append_id n i [] = [(n, [i])]"
| "append_id n i ((n', ids) # rest) =
     (if n = n' then (n', ids @ [i]) # rest else (n', ids) # append_id n i rest)"

text \<open>Lines 131 to 136: the body of the loop that groups the assigned ids by name.\<close>

definition collect :: "module \<Rightarrow> kind \<Rightarrow> string \<Rightarrow> names \<Rightarrow> names io" where
  "collect m k obj objs_names =
     io_bind (service_get k obj) (\<lambda>labeled_entity.
       case p_cluster m of
         None \<Rightarrow> io_return (append_id (ent_name labeled_entity) obj objs_names)
       | Some c \<Rightarrow>
           io_bind (follow_link_cluster k labeled_entity) (\<lambda>cn.
             if cn = c then io_return (append_id (ent_name labeled_entity) obj objs_names)
             else io_return objs_names))"

text \<open>Lines 144 to 148: one entity found by the search.\<close>

definition add_found :: "label \<Rightarrow> kind \<Rightarrow> entity \<Rightarrow> module \<Rightarrow> module io" where
  "add_found entity k obj_id m =
     io_bind (if \<not> check_mode m then label_service_add k (lab_id entity) (ent_id obj_id)
              else io_return ())
       (\<lambda>_. io_return (m\<lparr>changed := True\<rparr>))"

text \<open>Lines 139 to 148: one desired name.\<close>

definition add_missing :: "label \<Rightarrow> kind \<Rightarrow> names \<Rightarrow> string \<Rightarrow> module \<Rightarrow> module io" where
  "add_missing entity k objs_names obj m =
     (if obj \<notin> set (map fst objs_names) then
        io_bind (service_list k obj (p_cluster m)) (\<lambda>found.
          for_each found (add_found entity k) m)
      else io_return m)"

text \<open>Lines 151 to 156: one name of the current assignments.\<close>

definition remove_stale :: "label \<Rightarrow> kind \<Rightarrow> string list \<Rightarrow> string \<times> string list \<Rightarrow> module \<Rightarrow> module io" where
  "remove_stale entity k desired entry m =
     (if fst entry \<notin> set desired then
        io_bind (if \<not> check_mode m
                 then for_each (snd entry) (\<lambda>obj_id u. label_service_remove k (lab_id entity) obj_id) ()
                 else io_return ())
          (\<lambda>_. io_return (m\<lparr>changed := True\<rparr>))
      else io_return m)"

text \<open>
  \<^verbatim>\<open>_update_label_assignments\<close>, lines 126 to 156. The argument \<open>k\<close> stands for the
  name \<^verbatim>\<open>'vms'\<close> or \<^verbatim>\<open>'hosts'\<close>. Looking up a service object (lines 127, 143 and
  152) sends nothing to the engine and is not an event. The label \<open>entity\<close> is used for
  its id only: its assignments are read afresh through the link. The dictionary
  \<^verbatim>\<open>objs_names\<close> is walked in insertion order.
\<close>

definition update_label_assignments :: "label \<Rightarrow> kind \<Rightarrow> module \<Rightarrow> module io" where
  "update_label_assignments entity k m =
     (case param k m of
        None \<Rightarrow> io_return m
      | Some desired \<Rightarrow>
          io_bind (follow_link_objs k (lab_id entity)) (\<lambda>objs.
          io_bind (for_each objs (collect m k) []) (\<lambda>objs_names.
          io_bind (for_each desired (add_missing entity k objs_names) m) (\<lambda>m1.
          for_each objs_names (remove_stale entity k desired) m1))))"

definition update_check :: "label \<Rightarrow> module \<Rightarrow> (bool \<times> module) io" where
  "update_check entity m =
     io_bind (update_label_assignments entity Vms m) (\<lambda>m1.
     io_bind (update_label_assignments entity Hosts m1) (\<lambda>m2.
     io_return (True, m2)))"

definition post_create :: "label \<Rightarrow> module \<Rightarrow> module io" where
  "post_create entity m = io_bind (update_check entity m) (\<lambda>r. io_return (snd r))"

definition pre_remove :: "label \<Rightarrow> module \<Rightarrow> module io" where
  "pre_remove entity m =
     io_bind (update_check entity (m\<lparr>p_vms := Some [], p_hosts := Some []\<rparr>)) (\<lambda>r. io_return (snd r))"

section \<open>The surrounding framework\<close>

text \<open>
  Modelled from the spec: \<^verbatim>\<open>BaseModule.search_entity\<close>, the look-up of the label by
  name ("look up label by name"). It is one remote call and returns the first label of
  that name, if any.
\<close>

definition search_entity :: "module \<Rightarrow> label option io" where
  "search_entity m =
     io_bind (request (ListLabels (p_name m))) (\<lambda>_ e.
       io_return (find (\<lambda>l. lab_name l = p_name m) (labels e)) e)"

text \<open>
  \<^verbatim>\<open>build_entity\<close> (line 115) builds a label that has a name only. The engine gives
  it an id when \<^verbatim>\<open>self._service.add\<close> creates it; the id chosen here is longer than
  every id in use.
\<close>

definition build_entity :: "module \<Rightarrow> label" where
  "build_entity m = \<lparr>lab_id = [], lab_name = p_name m, lab_vms = [], lab_hosts = []\<rparr>"

definition fresh_id :: "engine \<Rightarrow> string" where
  "fresh_id e = replicate (Suc (fold max (map (\<lambda>l. length (lab_id l)) (labels e)) 0)) (CHR ''0'')"

definition service_add :: "label \<Rightarrow> label io" where
  "service_add new =
     io_bind (request (AddLabel (lab_name new))) (\<lambda>_ e.
       io_return (new\<lparr>lab_id := fresh_id e\<rparr>) (e\<lparr>labels := labels e @ [new\<lparr>lab_id := fresh_id e\<rparr>]\<rparr>))"

definition service_remove :: "string \<Rightarrow> unit io" where
  "service_remove lid =
     io_bind (request (RemoveLabel lid)) (\<lambda>_ e.
       case find_label lid e of
         None \<Rightarrow> io_raise (NotFound lid) e
       | Some l \<Rightarrow> io_return () (e\<lparr>labels := filter (\<lambda>l. lab_id l \<noteq> lid) (labels e)\<rparr>))"

text \<open>
  Modelled from the spec: \<^verbatim>\<open>BaseModule.create\<close>, the operation
  \<^verbatim>\<open>ensurePresent\<close>: "look up label by name; create if absent; then run assignment
  sync for VMs and Hosts"; under dry-run "all mutating calls are skipped, but the changed
  flag is still set". A label that a dry run would have created has no id, so nothing is
  synchronised for it.
\<close>

definition create :: "module \<Rightarrow> module io" where
  "create m =
     io_bind (search_entity m) (\<lambda>found.
       case found of
         Some entity \<Rightarrow> io_bind (update_check entity m) (\<lambda>r. io_return (snd r))
       | None \<Rightarrow>
           if check_mode m then io_return (m\<lparr>changed := True\<rparr>)
           else io_bind (service_add (build_entity m)) (\<lambda>entity.
                io_bind (post_create entity m) (\<lambda>m1.
                io_return (m1\<lparr>changed := True\<rparr>))))"

text \<open>
  Modelled from the spec: \<^verbatim>\<open>BaseModule.remove\<close>, the operation
  \<^verbatim>\<open>ensureAbsent\<close>: "if label exists, first clear all VM and Host assignments
  (treat desired lists as empty), then delete the label. Returns changed flag." The
  clearing is \<open>pre_remove\<close> of the source.
\<close>

definition remove :: "module \<Rightarrow> module io" where
  "remove m =
     io_bind (search_entity m) (\<lambda>found.
       case found of
         None \<Rightarrow> io_return m
       | Some entity \<Rightarrow>
           io_bind (pre_remove entity m) (\<lambda>m1.
           io_bind (if \<not> check_mode m1 then service_remove (lab_id entity) else io_return ()) (\<lambda>_.
           io_return (m1\<lparr>changed := True\<rparr>))))"

text \<open>
  Modelled from the spec: the argument check of \<^verbatim>\<open>AnsibleModule\<close> for the
  declaration \<^verbatim>\<open>required_if=[('state', 'present', ['cluster'])]\<close> of line 178:
  "invalid invocation combination (state=present without cluster)".
\<close>

definition required_if :: "module \<Rightarrow> bool" where
  "required_if m = (p_state m = Present \<longrightarrow> p_cluster m \<noteq> None)"

text \<open>\<^verbatim>\<open>create_connection\<close> and \<^verbatim>\<open>connection.close(logout=False)\<close>.\<close>

definition create_connection :: "unit io" where
  "create_connection = request CreateConnection"

definition connection_close :: "unit io" where
  "connection_close = request CloseConnection"

datatype outcome =
    ExitJson bool
  | FailJson error
  | InvalidArguments
  | SdkMissing
  | Uncaught error

text \<open>
  \<open>main\<close>, lines 164 to 203. The argument \<open>sdk\<close> says whether the client library
  could be imported (\<^verbatim>\<open>check_sdk\<close>). \<^verbatim>\<open>exit_json\<close> and \<^verbatim>\<open>fail_json\<close> leave through
  \<^verbatim>\<open>SystemExit\<close>, which the \<^verbatim>\<open>except Exception\<close> clause does not catch, so the
  \<^verbatim>\<open>finally\<close> clause runs after either. The module object is new in every run, so
  its changed flag starts as false. When \<^verbatim>\<open>create_connection\<close> raises, the name
  \<^verbatim>\<open>connection\<close> was never bound and the \<^verbatim>\<open>finally\<close> clause itself raises
  \<^verbatim>\<open>UnboundLocalError\<close>.
\<close>

definition main :: "bool \<Rightarrow> module \<Rightarrow> engine \<Rightarrow> outcome \<times> engine \<times> event list" where
  "main sdk m e =
     (if \<not> required_if m then (InvalidArguments, e, [])
      else if \<not> sdk then (SdkMissing, e, [])
      else case create_connection e of
          (Inl err, e1, evs1) \<Rightarrow> (Uncaught UnboundLocalError, e1, evs1)
        | (Inr u, e1, evs1) \<Rightarrow>
            (case (case p_state m of
                     Present \<Rightarrow> create (m\<lparr>changed := False\<rparr>)
                   | Absent \<Rightarrow> remove (m\<lparr>changed := False\<rparr>)) e1 of
               (ret, e2, evs2) \<Rightarrow>
                 (case connection_close e2 of
                    (Inl err, e3, evs3) \<Rightarrow> (Uncaught err, e3, evs1 @ evs2 @ evs3)
                  | (Inr u, e3, evs3) \<Rightarrow>
                      ((case ret of Inl err \<Rightarrow> FailJson err | Inr m' \<Rightarrow> ExitJson (changed m')),
                       e3, evs1 @ evs2 @ evs3))))"

section \<open>What a synchronisation does, as a plan\<close>

text \<open>
  The entities a label is assigned to that lie inside the cluster filter, the names they
  are grouped under, the ids to add and the ids to remove, as functions of the engine.
  The theorems below show that a synchronisation that returns has done exactly this.
\<close>

definition in_scope :: "string option \<Rightarrow> entity \<Rightarrow> bool" where
  "in_scope c x = (case c of None \<Rightarrow> True | Some s \<Rightarrow> ent_cluster x = s)"

definition members :: "kind \<Rightarrow> string option \<Rightarrow> string list \<Rightarrow> engine \<Rightarrow> entity list" where
  "members k c objs e = filter (in_scope c) (List.map_filter (\<lambda>i. find_entity k i e) objs)"

definition assigned_names :: "kind \<Rightarrow> string option \<Rightarrow> string \<Rightarrow> engine \<Rightarrow> string list" where
  "assigned_names k c lid e =
     (case find_label lid e of None \<Rightarrow> [] | Some l \<Rightarrow> map ent_name (members k c (assigned k l) e))"

definition group :: "entity list \<Rightarrow> names \<Rightarrow> names" where
  "group xs acc = fold (\<lambda>x. append_id (ent_name x) (ent_id x)) xs acc"

definition has_label :: "string \<Rightarrow> engine \<Rightarrow> bool" where
  "has_label lid e = (find_label lid e \<noteq> None)"

definition readable :: "kind \<Rightarrow> string option \<Rightarrow> engine \<Rightarrow> string \<Rightarrow> bool" where
  "readable k c e i =
     (\<not> fault e (GetEntity k i) \<and> find_entity k i e \<noteq> None \<and>
      (c \<noteq> None \<longrightarrow> \<not> fault e (FollowCluster k i)))"

definition read_events :: "kind \<Rightarrow> string option \<Rightarrow> string \<Rightarrow> event list" where
  "read_events k c i = GetEntity k i # (case c of None \<Rightarrow> [] | Some s \<Rightarrow> [FollowCluster k i])"

definition mark :: "bool \<Rightarrow> module \<Rightarrow> module" where
  "mark b m = (if b then m\<lparr>changed := True\<rparr> else m)"

definition missing :: "names \<Rightarrow> string list \<Rightarrow> string list" where
  "missing objs_names desired = filter (\<lambda>n. n \<notin> set (map fst objs_names)) desired"

definition to_add :: "kind \<Rightarrow> string option \<Rightarrow> names \<Rightarrow> string list \<Rightarrow> engine \<Rightarrow> string list" where
  "to_add k c objs_names desired e =
     concat (map (\<lambda>n. map ent_id (matching k n c e)) (missing objs_names desired))"

definition stale :: "names \<Rightarrow> string list \<Rightarrow> names" where
  "stale objs_names desired = filter (\<lambda>entry. fst entry \<notin> set desired) objs_names"

definition to_remove :: "names \<Rightarrow> string list \<Rightarrow> string list" where
  "to_remove objs_names desired = concat (map snd (stale objs_names desired))"

definition add_events :: "kind \<Rightarrow> string option \<Rightarrow> string \<Rightarrow> bool \<Rightarrow> names \<Rightarrow> string list \<Rightarrow> engine \<Rightarrow> event list" where
  "add_events k c lid dry objs_names desired e =
     concat (map (\<lambda>n. ListSearch k (search_query n c) #
                       (if dry then [] else map (\<lambda>x. AddAssignment k lid (ent_id x)) (matching k n c e)))
              (missing objs_names desired))"

definition remove_events :: "kind \<Rightarrow> string \<Rightarrow> bool \<Rightarrow> names \<Rightarrow> string list \<Rightarrow> event list" where
  "remove_events k lid dry objs_names desired =
     (if dry then [] else map (RemoveAssignment k lid) (to_remove objs_names desired))"

definition add_ok :: "label \<Rightarrow> kind \<Rightarrow> module \<Rightarrow> names \<Rightarrow> string list \<Rightarrow> engine \<Rightarrow> bool" where
  "add_ok entity k m objs_names desired e =
     ((\<forall>n\<in>set (missing objs_names desired). \<not> fault e (ListSearch k (search_query n (p_cluster m)))) \<and>
      (\<not> check_mode m \<longrightarrow>
         (\<forall>i\<in>set (to_add k (p_cluster m) objs_names desired e). \<not> fault e (AddAssignment k (lab_id entity) i))))"

definition remove_ok :: "label \<Rightarrow> kind \<Rightarrow> module \<Rightarrow> names \<Rightarrow> string list \<Rightarrow> engine \<Rightarrow> bool" where
  "remove_ok entity k m objs_names desired e =
     (\<not> check_mode m \<longrightarrow>
        (\<forall>i\<in>set (to_remove objs_names desired). \<not> fault e (RemoveAssignment k (lab_id entity) i)))"

definition current :: "kind \<Rightarrow> string option \<Rightarrow> string \<Rightarrow> engine \<Rightarrow> names" where
  "current k c lid e =
     (case find_label lid e of None \<Rightarrow> [] | Some l \<Rightarrow> group (members k c (assigned k l) e) [])"

definition feasible :: "label \<Rightarrow> kind \<Rightarrow> module \<Rightarrow> string list \<Rightarrow> engine \<Rightarrow> bool" where
  "feasible entity k m desired e =
     (\<not> fault e (FollowLink k (lab_id entity)) \<and>
      (case find_label (lab_id entity) e of
         None \<Rightarrow> False
       | Some l \<Rightarrow>
           (\<forall>i\<in>set (assigned k l). readable k (p_cluster m) e i) \<and>
           add_ok entity k m (current k (p_cluster m) (lab_id entity) e) desired e \<and>
           remove_ok entity k m (current k (p_cluster m) (lab_id entity) e) desired e))"

definition sync_changed :: "label \<Rightarrow> kind \<Rightarrow> module \<Rightarrow> string list \<Rightarrow> engine \<Rightarrow> bool" where
  "sync_changed entity k m desired e =
     (to_add k (p_cluster m) (current k (p_cluster m) (lab_id entity) e) desired e \<noteq> [] \<or>
      stale (current k (p_cluster m) (lab_id entity) e) desired \<noteq> [])"

definition synced :: "label \<Rightarrow> kind \<Rightarrow> module \<Rightarrow> string list \<Rightarrow> engine \<Rightarrow> engine" where
  "synced entity k m desired e =
     (if check_mode m then e
      else fold (unassign k (lab_id entity))
             (to_remove (current k (p_cluster m) (lab_id entity) e) desired)
             (fold (assign k (lab_id entity))
                (to_add k (p_cluster m) (current k (p_cluster m) (lab_id entity) e) desired e) e))"

definition sync_events :: "label \<Rightarrow> kind \<Rightarrow> module \<Rightarrow> string list \<Rightarrow> engine \<Rightarrow> event list" where
  "sync_events entity k m desired e =
     FollowLink k (lab_id entity) #
     concat (map (read_events k (p_cluster m))
               (case find_label (lab_id entity) e of None \<Rightarrow> [] | Some l \<Rightarrow> assigned k l)) @
     add_events k (p_cluster m) (lab_id entity) (check_mode m)
       (current k (p_cluster m) (lab_id entity) e) desired e @
     remove_events k (lab_id entity) (check_mode m)
       (current k (p_cluster m) (lab_id entity) e) desired"

text \<open>A computation that changes nothing on the engine and issues no mutating call.\<close>

definition quiet :: "'a io \<Rightarrow> bool" where
  "quiet f = (\<forall>e r e' evs. f e = (r, e', evs) \<longrightarrow> e' = e \<and> (\<forall>ev\<in>set evs. \<not> is_mutation ev))"

text \<open>Two engines that look the same to the synchronisation of one kind.\<close>

definition same_view :: "kind \<Rightarrow> string \<Rightarrow> engine \<Rightarrow> engine \<Rightarrow> bool" where
  "same_view k lid e e' =
     (fault e' = fault e \<and> tab k e' = tab k e \<and>
      map_option (assigned k) (find_label lid e') = map_option (assigned k) (find_label lid e))"

section \<open>An example engine\<close>

text \<open>
  The example of the specification: label \<^verbatim>\<open>mylabel\<close>, cluster \<^verbatim>\<open>mycluster\<close>,
  \<^verbatim>\<open>vm2\<close> and \<^verbatim>\<open>vm3\<close> assigned, \<^verbatim>\<open>vm1\<close> and \<^verbatim>\<open>vm2\<close> desired. A fourth
  machine, in another cluster, is assigned too, and two hosts share a name.
\<close>

definition ex_vms :: "entity list" where
  "ex_vms =
     [\<lparr>ent_id = ''1'', ent_name = ''vm1'', ent_cluster = ''mycluster''\<rparr>,
      \<lparr>ent_id = ''2'', ent_name = ''vm2'', ent_cluster = ''mycluster''\<rparr>,
      \<lparr>ent_id = ''3'', ent_name = ''vm3'', ent_cluster = ''mycluster''\<rparr>,
      \<lparr>ent_id = ''4'', ent_name = ''vm4'', ent_cluster = ''other''\<rparr>]"

definition ex_hosts :: "entity list" where
  "ex_hosts =
     [\<lparr>ent_id = ''7'', ent_name = ''h'', ent_cluster = ''mycluster''\<rparr>,
      \<lparr>ent_id = ''8'', ent_name = ''h'', ent_cluster = ''mycluster''\<rparr>]"

definition ex_label :: label where
  "ex_label = \<lparr>lab_id = ''L'', lab_name = ''mylabel'', lab_vms = [''2'', ''3'', ''4''], lab_hosts = []\<rparr>"

definition ex_engine :: engine where
  "ex_engine = \<lparr>vms_tab = ex_vms, hosts_tab = ex_hosts, labels = [ex_label], fault = (\<lambda>ev. False)\<rparr>"

definition ex_engine_down :: engine where
  "ex_engine_down = \<lparr>vms_tab = ex_vms, hosts_tab = ex_hosts, labels = [ex_label], fault = (\<lambda>ev. ev = CreateConnection)\<rparr>"

text \<open>
  Hosts that share a display name: two are called \<^verbatim>\<open>h\<close> and are not assigned, two are
  called \<^verbatim>\<open>g\<close> and are both assigned to the label.
\<close>

definition ex_hosts_shared :: "entity list" where
  "ex_hosts_shared =
     [\<lparr>ent_id = ''7'', ent_name = ''h'', ent_cluster = ''mycluster''\<rparr>,
      \<lparr>ent_id = ''8'', ent_name = ''h'', ent_cluster = ''mycluster''\<rparr>,
      \<lparr>ent_id = ''9'', ent_name = ''g'', ent_cluster = ''mycluster''\<rparr>,
      \<lparr>ent_id = ''10'', ent_name = ''g'', ent_cluster = ''mycluster''\<rparr>]"

definition ex_label_shared :: label where
  "ex_label_shared = \<lparr>lab_id = ''L'', lab_name = ''mylabel'', lab_vms = [], lab_hosts = [''9'', ''10'']\<rparr>"

definition ex_engine_shared :: engine where
  "ex_engine_shared =
     \<lparr>vms_tab = ex_vms, hosts_tab = ex_hosts_shared, labels = [ex_label_shared], fault = (\<lambda>ev. False)\<rparr>"

definition ex_module_hosts :: module where
  "ex_module_hosts =
     \<lparr>p_name = ''mylabel'', p_state = Present, p_cluster = Some ''mycluster'',
      p_vms = None, p_hosts = Some [''h''], check_mode = False, changed = False\<rparr>"

definition ex_module_ghost :: module where
  "ex_module_ghost =
     \<lparr>p_name = ''mylabel'', p_state = Present, p_cluster = Some ''mycluster'',
      p_vms = Some [''ghost'', ''vm1'', ''vm2''], p_hosts = None, check_mode = False, changed = False\<rparr>"

definition ex_engine_synced :: engine where
  "ex_engine_synced =
     \<lparr>vms_tab = ex_vms, hosts_tab = ex_hosts,
      labels = [\<lparr>lab_id = ''L'', lab_name = ''mylabel'', lab_vms = [''1'', ''2'', ''4''], lab_hosts = []\<rparr>],
      fault = (\<lambda>ev. False)\<rparr>"

definition ex_module_absent :: module where
  "ex_module_absent =
     \<lparr>p_name = ''mylabel'', p_state = Absent, p_cluster = Some ''mycluster'',
      p_vms = None, p_hosts = None, check_mode = False, changed = False\<rparr>"

definition ex_module :: module where
  "ex_module =
     \<lparr>p_name = ''mylabel'', p_state = Present, p_cluster = Some ''mycluster'',
      p_vms = Some [''vm1'', ''vm2''], p_hosts = None, check_mode = False, changed = False\<rparr>"

section \<open>Unfolding a run on the example\<close>

lemmas run_defs =
  update_check_def update_label_assignments_def io_bind_def io_return_def io_raise_def request_def
  follow_link_objs_def service_get_def follow_link_cluster_def service_list_def
  label_service_add_def label_service_remove_def collect_def add_found_def add_missing_def
  remove_stale_def param_def find_label_def find_entity_def tab_def assigned_def set_assigned_def
  assign_def unassign_def update_label_def matching_def str_cluster_def search_query_def

lemmas main_defs =
  main_def required_if_def create_connection_def connection_close_def remove_def create_def
  pre_remove_def post_create_def search_entity_def service_add_def service_remove_def
  build_entity_def fresh_id_def

lemmas ex_defs = ex_module_def ex_module_hosts_def ex_module_ghost_def ex_module_absent_def
  ex_engine_def ex_engine_synced_def ex_engine_shared_def ex_label_def ex_label_shared_def
  ex_vms_def ex_hosts_def ex_hosts_shared_def

section \<open>Sequencing\<close>

lemma io_bind_Inl: "f e = (Inl err, e1, evs1) \<Longrightarrow> io_bind f g e = (Inl err, e1, evs1)"
  by (simp add: io_bind_def)

lemma io_bind_Inr:
  "f e = (Inr x, e1, evs1) \<Longrightarrow> g x e1 = (r, e2, evs2) \<Longrightarrow> io_bind f g e = (r, e2, evs1 @ evs2)"
  by (simp add: io_bind_def)

lemma io_bind_InrE:
  assumes "io_bind f g e = (Inr y, e2, evs)"
  obtains x e1 evs1 evs2
  where "f e = (Inr x, e1, evs1)" and "g x e1 = (Inr y, e2, evs2)" and "evs = evs1 @ evs2"
  using assms by (auto simp: io_bind_def split: prod.splits sum.splits)

section \<open>The engine under assignment changes\<close>

lemma fault_assign [simp]: "fault (assign k lid i e) = fault e"
  by (simp add: assign_def update_label_def)

lemma fault_unassign [simp]: "fault (unassign k lid i e) = fault e"
  by (simp add: unassign_def update_label_def)

lemma tab_assign [simp]: "tab k' (assign k lid i e) = tab k' e"
  by (simp add: assign_def update_label_def tab_def split: kind.splits)

lemma tab_unassign [simp]: "tab k' (unassign k lid i e) = tab k' e"
  by (simp add: unassign_def update_label_def tab_def split: kind.splits)

lemma find_update_label:
  "find_label lid' (update_label lid f e) =
     (case find_label lid' e of None \<Rightarrow> None | Some l \<Rightarrow> Some (if lid' = lid then f l else l))"
  if "\<And>l. lab_id (f l) = lab_id l"
proof -
  have "find (\<lambda>l. lab_id l = lid') (map (\<lambda>l. if lab_id l = lid then f l else l) ls) =
       (case find (\<lambda>l. lab_id l = lid') ls of None \<Rightarrow> None | Some l \<Rightarrow> Some (if lid' = lid then f l else l))" for ls
    by (induction ls) (auto simp: that)
  then show ?thesis by (simp add: find_label_def update_label_def)
qed

lemma lab_id_set_assigned [simp]: "lab_id (set_assigned k ids l) = lab_id l"
  by (simp add: set_assigned_def split: kind.splits)

lemma assigned_set_assigned:
  "assigned k' (set_assigned k ids l) = (if k' = k then ids else assigned k' l)"
  by (cases k; cases k') (simp_all add: set_assigned_def assigned_def)

lemma find_label_assign:
  "find_label lid' (assign k lid i e) =
     (case find_label lid' e of None \<Rightarrow> None
      | Some l \<Rightarrow> Some (if lid' = lid then set_assigned k (List.insert i (assigned k l)) l else l))"
  unfolding assign_def by (rule find_update_label) simp

lemma find_label_unassign:
  "find_label lid' (unassign k lid i e) =
     (case find_label lid' e of None \<Rightarrow> None
      | Some l \<Rightarrow> Some (if lid' = lid then set_assigned k (removeAll i (assigned k l)) l else l))"
  unfolding unassign_def by (rule find_update_label) simp

lemma fault_fold_assign [simp]: "fault (fold (assign k lid) ids e) = fault e"
  by (induction ids arbitrary: e) simp_all

lemma fault_fold_unassign [simp]: "fault (fold (unassign k lid) ids e) = fault e"
  by (induction ids arbitrary: e) simp_all

lemma tab_fold_assign [simp]: "tab k' (fold (assign k lid) ids e) = tab k' e"
  by (induction ids arbitrary: e) simp_all

lemma tab_fold_unassign [simp]: "tab k' (fold (unassign k lid) ids e) = tab k' e"
  by (induction ids arbitrary: e) simp_all

lemma has_label_assign [simp]: "has_label lid' (assign k lid i e) = has_label lid' e"
  by (simp add: has_label_def find_label_assign split: option.splits)

lemma has_label_unassign [simp]: "has_label lid' (unassign k lid i e) = has_label lid' e"
  by (simp add: has_label_def find_label_unassign split: option.splits)

lemma has_label_fold_assign [simp]: "has_label lid' (fold (assign k lid) ids e) = has_label lid' e"
  by (induction ids arbitrary: e) simp_all

lemma has_label_fold_unassign [simp]: "has_label lid' (fold (unassign k lid) ids e) = has_label lid' e"
  by (induction ids arbitrary: e) simp_all

lemma matching_static:
  "tab k e' = tab k e \<Longrightarrow> matching k n c e' = matching k n c e"
  by (simp add: matching_def)

lemma matching_fold_assign [simp]: "matching k' n c (fold (assign k lid) ids e) = matching k' n c e"
  by (simp add: matching_def)

lemma to_add_fold_assign [simp]:
  "to_add k' c names ds (fold (assign k lid) ids e) = to_add k' c names ds e"
  by (simp add: to_add_def)

lemma add_events_fold_assign [simp]:
  "add_events k' c lid' dry names ds (fold (assign k lid) ids e) = add_events k' c lid' dry names ds e"
  by (simp add: add_events_def cong: if_cong)

lemma mark_simps [simp]:
  "check_mode (mark b m) = check_mode m"
  "p_cluster (mark b m) = p_cluster m"
  "param k (mark b m) = param k m"
  "changed (mark b m) = (b \<or> changed m)"
  "mark False m = m"
  "mark b (mark b' m) = mark (b' \<or> b) m"
  by (auto simp: mark_def param_def split: kind.splits)

lemma mark_True: "m\<lparr>changed := True\<rparr> = mark True m"
  by (simp add: mark_def)

section \<open>The three loops\<close>

subsection \<open>Grouping the current assignments\<close>

lemma find_entity_id: "find_entity k i e = Some x \<Longrightarrow> ent_id x = i"
  by (auto simp: find_entity_def find_Some_iff)

lemma collect_readable:
  "readable k (p_cluster m) e i \<Longrightarrow>
   collect m k i acc e = (Inr (group (members k (p_cluster m) [i] e) acc), e, read_events k (p_cluster m) i)"
  by (auto simp: readable_def collect_def service_get_def follow_link_cluster_def request_def
      io_bind_def io_return_def io_raise_def members_def group_def read_events_def
      List.map_filter_simps in_scope_def find_entity_id split: option.splits)

lemma collect_Inr:
  "collect m k i acc e = (Inr names, e', evs) \<Longrightarrow> readable k (p_cluster m) e i"
  by (auto simp: readable_def collect_def service_get_def follow_link_cluster_def request_def
      io_bind_def io_return_def io_raise_def dest: find_entity_id
      split: option.splits if_splits prod.splits sum.splits)

lemma members_Cons:
  "members k c (i # objs) e = members k c [i] e @ members k c objs e"
  by (simp add: members_def List.map_filter_simps split: option.splits)

lemma group_append: "group (xs @ ys) acc = group ys (group xs acc)"
  by (simp add: group_def)

lemma collect_loop_readable:
  "\<forall>i\<in>set objs. readable k (p_cluster m) e i \<Longrightarrow>
   for_each objs (collect m k) acc e =
     (Inr (group (members k (p_cluster m) objs e) acc), e, concat (map (read_events k (p_cluster m)) objs))"
proof (induction objs arbitrary: acc)
  case Nil
  then show ?case by (simp add: io_return_def members_def group_def List.map_filter_simps)
next
  case (Cons i objs)
  from Cons.prems have r: "readable k (p_cluster m) e i" by simp
  from Cons.prems have rs: "\<forall>i\<in>set objs. readable k (p_cluster m) e i" by simp
  show ?case
    using collect_readable [OF r, of acc] Cons.IH [OF rs]
    by (simp add: io_bind_def members_Cons [of k _ i objs] group_append)
qed

lemma collect_loop_Inr:
  "for_each objs (collect m k) acc e = (Inr names, e', evs) \<Longrightarrow>
   \<forall>i\<in>set objs. readable k (p_cluster m) e i"
proof (induction objs arbitrary: acc e' evs names)
  case Nil
  then show ?case by simp
next
  case (Cons i objs)
  from Cons.prems obtain acc1 e1 evs1 evs2 where
    a: "collect m k i acc e = (Inr acc1, e1, evs1)" and
    b: "for_each objs (collect m k) acc1 e1 = (Inr names, e', evs2)"
    by (auto elim: io_bind_InrE)
  from a have r: "readable k (p_cluster m) e i" by (rule collect_Inr)
  from collect_readable [OF r, of acc] a have "e1 = e" by simp
  with b Cons.IH r show ?case by auto
qed

subsection \<open>Adding\<close>

lemma label_service_add_ok:
  "has_label lid e \<Longrightarrow> \<not> fault e (AddAssignment k lid i) \<Longrightarrow>
   label_service_add k lid i e = (Inr (), assign k lid i e, [AddAssignment k lid i])"
  by (auto simp: has_label_def label_service_add_def io_bind_def request_def io_return_def)

lemma label_service_add_Inr:
  "label_service_add k lid i e = (Inr u, e', evs) \<Longrightarrow> \<not> fault e (AddAssignment k lid i)"
  by (auto simp: label_service_add_def io_bind_def request_def io_return_def io_raise_def
      split: if_splits option.splits)

lemma add_found_dry:
  "check_mode m \<Longrightarrow> for_each found (add_found entity k) m e = (Inr (mark (found \<noteq> []) m), e, [])"
proof (induction found arbitrary: m)
  case Nil
  then show ?case by (simp add: io_return_def)
next
  case (Cons x found)
  have "add_found entity k x m e = (Inr (mark True m), e, [])"
    using Cons.prems by (simp add: add_found_def io_bind_def io_return_def mark_True)
  moreover have "for_each found (add_found entity k) (mark True m) e =
      (Inr (mark (found \<noteq> []) (mark True m)), e, [])"
    using Cons.prems by (intro Cons.IH) simp
  ultimately show ?case by (simp add: io_bind_def)
qed

lemma add_found_real:
  "\<not> check_mode m \<Longrightarrow> has_label (lab_id entity) e \<Longrightarrow>
   \<forall>x\<in>set found. \<not> fault e (AddAssignment k (lab_id entity) (ent_id x)) \<Longrightarrow>
   for_each found (add_found entity k) m e =
     (Inr (mark (found \<noteq> []) m), fold (assign k (lab_id entity)) (map ent_id found) e,
      map (\<lambda>x. AddAssignment k (lab_id entity) (ent_id x)) found)"
proof (induction found arbitrary: m e)
  case Nil
  then show ?case by (simp add: io_return_def)
next
  case (Cons x found)
  have "add_found entity k x m e =
      (Inr (mark True m), assign k (lab_id entity) (ent_id x) e, [AddAssignment k (lab_id entity) (ent_id x)])"
    using Cons.prems by (simp add: add_found_def io_bind_def io_return_def label_service_add_ok mark_True)
  moreover have "for_each found (add_found entity k) (mark True m) (assign k (lab_id entity) (ent_id x) e) =
      (Inr (mark (found \<noteq> []) (mark True m)),
       fold (assign k (lab_id entity)) (map ent_id found) (assign k (lab_id entity) (ent_id x) e),
       map (\<lambda>x. AddAssignment k (lab_id entity) (ent_id x)) found)"
    using Cons.prems by (intro Cons.IH) simp_all
  ultimately show ?case by (simp add: io_bind_def)
qed

lemma add_found_Inr:
  "\<not> check_mode m \<Longrightarrow> for_each found (add_found entity k) m e = (Inr m', e', evs) \<Longrightarrow>
   \<forall>x\<in>set found. \<not> fault e (AddAssignment k (lab_id entity) (ent_id x))"
proof (induction found arbitrary: m e evs)
  case Nil
  then show ?case by simp
next
  case (Cons x found)
  from Cons.prems(2) obtain m1 e1 evs1 evs2 where
    a: "add_found entity k x m e = (Inr m1, e1, evs1)" and
    b: "for_each found (add_found entity k) m1 e1 = (Inr m', e', evs2)"
    by (auto elim: io_bind_InrE)
  from a Cons.prems(1) obtain u evs0 where
    c: "label_service_add k (lab_id entity) (ent_id x) e = (Inr u, e1, evs0)" and m1: "m1 = m\<lparr>changed := True\<rparr>"
    by (auto simp: add_found_def io_return_def elim!: io_bind_InrE)
  from c have f: "\<not> fault e (AddAssignment k (lab_id entity) (ent_id x))" by (rule label_service_add_Inr)
  from c have e1: "fault e1 = fault e"
    by (auto simp: label_service_add_def io_bind_def request_def io_return_def io_raise_def
        split: if_splits option.splits)
  from Cons.IH [OF _ b] Cons.prems(1) m1 have "\<forall>x\<in>set found. \<not> fault e1 (AddAssignment k (lab_id entity) (ent_id x))"
    by simp
  with f e1 show ?case by simp
qed

lemma service_list_result:
  "service_list k n c e =
     (if fault e (ListSearch k (search_query n c)) then Inl (RemoteError (ListSearch k (search_query n c)))
      else Inr (matching k n c e), e, [ListSearch k (search_query n c)])"
  by (simp add: service_list_def io_bind_def request_def io_return_def)

lemma plan_Cons:
  "missing names (n # ds) = (if n \<in> set (map fst names) then missing names ds else n # missing names ds)"
  "to_add k c names (n # ds) e =
     (if n \<in> set (map fst names) then [] else map ent_id (matching k n c e)) @ to_add k c names ds e"
  "add_events k c lid dry names (n # ds) e =
     (if n \<in> set (map fst names) then []
      else ListSearch k (search_query n c) #
           (if dry then [] else map (\<lambda>x. AddAssignment k lid (ent_id x)) (matching k n c e))) @
     add_events k c lid dry names ds e"
  by (simp_all add: missing_def to_add_def add_events_def)

lemma plan_Nil [simp]:
  "missing names [] = []" "to_add k c names [] e = []" "add_events k c lid dry names [] e = []"
  by (simp_all add: missing_def to_add_def add_events_def)

lemma add_missing_known:
  "n \<in> set (map fst names) \<Longrightarrow> add_missing entity k names n m e = (Inr m, e, [])"
  by (simp add: add_missing_def io_return_def)

lemma add_missing_ok:
  assumes "n \<notin> set (map fst names)" and "has_label (lab_id entity) e"
    and "\<not> fault e (ListSearch k (search_query n (p_cluster m)))"
    and "\<not> check_mode m \<longrightarrow> (\<forall>x\<in>set (matching k n (p_cluster m) e). \<not> fault e (AddAssignment k (lab_id entity) (ent_id x)))"
  shows "add_missing entity k names n m e =
     (Inr (mark (matching k n (p_cluster m) e \<noteq> []) m),
      (if check_mode m then e else fold (assign k (lab_id entity)) (map ent_id (matching k n (p_cluster m) e)) e),
      ListSearch k (search_query n (p_cluster m)) #
        (if check_mode m then [] else map (\<lambda>x. AddAssignment k (lab_id entity) (ent_id x)) (matching k n (p_cluster m) e)))"
proof (cases "check_mode m")
  case True
  then show ?thesis
    using assms by (simp add: add_missing_def io_bind_def service_list_result add_found_dry)
next
  case False
  then show ?thesis
    using assms by (simp add: add_missing_def io_bind_def service_list_result add_found_real)
qed

lemma add_missing_Inr:
  assumes "add_missing entity k names n m e = (Inr m', e', evs)" and "n \<notin> set (map fst names)"
  shows "\<not> fault e (ListSearch k (search_query n (p_cluster m)))"
    and "\<not> check_mode m \<longrightarrow> (\<forall>x\<in>set (matching k n (p_cluster m) e). \<not> fault e (AddAssignment k (lab_id entity) (ent_id x)))"
proof -
  from assms obtain found e1 evs1 evs2 where
    a: "service_list k n (p_cluster m) e = (Inr found, e1, evs1)" and
    b: "for_each found (add_found entity k) m e1 = (Inr m', e', evs2)"
    by (auto simp: add_missing_def elim!: io_bind_InrE)
  from a show f: "\<not> fault e (ListSearch k (search_query n (p_cluster m)))"
    by (auto simp: service_list_result split: if_splits)
  from a f have "found = matching k n (p_cluster m) e" "e1 = e"
    by (auto simp: service_list_result)
  with b show "\<not> check_mode m \<longrightarrow> (\<forall>x\<in>set (matching k n (p_cluster m) e). \<not> fault e (AddAssignment k (lab_id entity) (ent_id x)))"
    using add_found_Inr [of m "matching k n (p_cluster m) e" entity k e m' e' evs2] by blast
qed

lemma add_loop_ok:
  assumes "has_label (lab_id entity) e" and "add_ok entity k m names ds e"
  shows "for_each ds (add_missing entity k names) m e =
     (Inr (mark (to_add k (p_cluster m) names ds e \<noteq> []) m),
      (if check_mode m then e else fold (assign k (lab_id entity)) (to_add k (p_cluster m) names ds e) e),
      add_events k (p_cluster m) (lab_id entity) (check_mode m) names ds e)"
  using assms
proof (induction ds arbitrary: m e)
  case Nil
  then show ?case by (simp add: io_return_def)
next
  case (Cons n ds)
  show ?case
  proof (cases "n \<in> set (map fst names)")
    case True
    from Cons.prems(2) True have ok: "add_ok entity k m names ds e"
      by (simp add: add_ok_def plan_Cons)
    from Cons.IH [OF Cons.prems(1) ok] True show ?thesis
      by (simp add: add_missing_known io_bind_def plan_Cons)
  next
    case False
    let ?found = "matching k n (p_cluster m) e"
    let ?m1 = "mark (?found \<noteq> []) m"
    let ?e1 = "if check_mode m then e else fold (assign k (lab_id entity)) (map ent_id ?found) e"
    from Cons.prems(2) False have
      s: "\<not> fault e (ListSearch k (search_query n (p_cluster m)))" and
      a: "\<not> check_mode m \<longrightarrow> (\<forall>x\<in>set ?found. \<not> fault e (AddAssignment k (lab_id entity) (ent_id x)))" and
      ok: "add_ok entity k m names ds e"
      by (auto simp: add_ok_def plan_Cons)
    have step: "add_missing entity k names n m e =
        (Inr ?m1, ?e1, ListSearch k (search_query n (p_cluster m)) #
          (if check_mode m then [] else map (\<lambda>x. AddAssignment k (lab_id entity) (ent_id x)) ?found))"
      by (rule add_missing_ok [OF False Cons.prems(1) s a])
    have l1: "has_label (lab_id entity) ?e1" using Cons.prems(1) by simp
    have ok1: "add_ok entity k ?m1 names ds ?e1" using ok by (simp add: add_ok_def)
    from Cons.IH [OF l1 ok1] step False show ?thesis
      by (simp add: io_bind_def plan_Cons)
  qed
qed

lemma add_loop_Inr:
  assumes "for_each ds (add_missing entity k names) m e = (Inr m', e', evs)"
    and "has_label (lab_id entity) e"
  shows "add_ok entity k m names ds e"
  using assms
proof (induction ds arbitrary: m e evs)
  case Nil
  then show ?case by (simp add: add_ok_def)
next
  case (Cons n ds)
  from Cons.prems(1) obtain m1 e1 evs1 evs2 where
    a: "add_missing entity k names n m e = (Inr m1, e1, evs1)" and
    b: "for_each ds (add_missing entity k names) m1 e1 = (Inr m', e', evs2)"
    by (auto elim: io_bind_InrE)
  show ?case
  proof (cases "n \<in> set (map fst names)")
    case True
    with a have "m1 = m" "e1 = e" by (simp_all add: add_missing_known)
    with Cons.IH [OF b] Cons.prems(2) True show ?thesis by (simp add: add_ok_def plan_Cons)
  next
    case False
    let ?found = "matching k n (p_cluster m) e"
    note f = add_missing_Inr [OF a False]
    from add_missing_ok [OF False Cons.prems(2) f] a have
      m1: "m1 = mark (?found \<noteq> []) m" and
      e1: "e1 = (if check_mode m then e else fold (assign k (lab_id entity)) (map ent_id ?found) e)"
      by simp_all
    have "has_label (lab_id entity) e1" using Cons.prems(2) e1 by simp
    from Cons.IH [OF b this] have "add_ok entity k m names ds e"
      by (simp add: add_ok_def m1 e1 split: if_splits)
    with f False show ?thesis by (auto simp: add_ok_def plan_Cons)
  qed
qed

subsection \<open>Removing\<close>

lemma label_service_remove_ok:
  "has_label lid e \<Longrightarrow> \<not> fault e (RemoveAssignment k lid i) \<Longrightarrow>
   label_service_remove k lid i e = (Inr (), unassign k lid i e, [RemoveAssignment k lid i])"
  by (auto simp: has_label_def label_service_remove_def io_bind_def request_def io_return_def)

lemma label_service_remove_Inr:
  "label_service_remove k lid i e = (Inr u, e', evs) \<Longrightarrow> \<not> fault e (RemoveAssignment k lid i)"
  by (auto simp: label_service_remove_def io_bind_def request_def io_return_def io_raise_def
      split: if_splits option.splits)

lemma remove_ids_ok:
  "has_label lid e \<Longrightarrow> \<forall>i\<in>set ids. \<not> fault e (RemoveAssignment k lid i) \<Longrightarrow>
   for_each ids (\<lambda>obj_id u. label_service_remove k lid obj_id) () e =
     (Inr (), fold (unassign k lid) ids e, map (RemoveAssignment k lid) ids)"
proof (induction ids arbitrary: e)
  case Nil
  then show ?case by (simp add: io_return_def)
next
  case (Cons i ids)
  have "label_service_remove k lid i e = (Inr (), unassign k lid i e, [RemoveAssignment k lid i])"
    using Cons.prems by (simp add: label_service_remove_ok)
  moreover have "for_each ids (\<lambda>obj_id u. label_service_remove k lid obj_id) () (unassign k lid i e) =
      (Inr (), fold (unassign k lid) ids (unassign k lid i e), map (RemoveAssignment k lid) ids)"
    using Cons.prems by (intro Cons.IH) simp_all
  ultimately show ?case by (simp add: io_bind_def)
qed

lemma remove_ids_Inr:
  "for_each ids (\<lambda>obj_id u. label_service_remove k lid obj_id) () e = (Inr u, e', evs) \<Longrightarrow>
   has_label lid e \<Longrightarrow> \<forall>i\<in>set ids. \<not> fault e (RemoveAssignment k lid i)"
proof (induction ids arbitrary: e evs)
  case Nil
  then show ?case by simp
next
  case (Cons i ids)
  from Cons.prems(1) obtain u1 e1 evs1 evs2 where
    a: "label_service_remove k lid i e = (Inr u1, e1, evs1)" and
    b: "for_each ids (\<lambda>obj_id u. label_service_remove k lid obj_id) () e1 = (Inr u, e', evs2)"
    by (auto elim: io_bind_InrE)
  from a have f: "\<not> fault e (RemoveAssignment k lid i)" by (rule label_service_remove_Inr)
  from label_service_remove_ok [OF Cons.prems(2) f] a have e1: "e1 = unassign k lid i e" by simp
  from Cons.IH [OF b] Cons.prems(2) e1 have "\<forall>i\<in>set ids. \<not> fault e (RemoveAssignment k lid i)" by simp
  with f show ?case by simp
qed

lemma removal_Cons:
  "stale (entry # names) ds = (if fst entry \<in> set ds then stale names ds else entry # stale names ds)"
  "to_remove (entry # names) ds = (if fst entry \<in> set ds then [] else snd entry) @ to_remove names ds"
  by (simp_all add: stale_def to_remove_def)

lemma removal_Nil [simp]: "stale [] ds = []" "to_remove [] ds = []"
  by (simp_all add: stale_def to_remove_def)

lemma remove_stale_kept:
  "fst entry \<in> set ds \<Longrightarrow> remove_stale entity k ds entry m e = (Inr m, e, [])"
  by (simp add: remove_stale_def io_return_def)

lemma remove_stale_ok:
  assumes "fst entry \<notin> set ds" and "has_label (lab_id entity) e"
    and "\<not> check_mode m \<longrightarrow> (\<forall>i\<in>set (snd entry). \<not> fault e (RemoveAssignment k (lab_id entity) i))"
  shows "remove_stale entity k ds entry m e =
     (Inr (mark True m),
      (if check_mode m then e else fold (unassign k (lab_id entity)) (snd entry) e),
      (if check_mode m then [] else map (RemoveAssignment k (lab_id entity)) (snd entry)))"
  using assms
  by (simp add: remove_stale_def io_bind_def io_return_def remove_ids_ok mark_True)

lemma remove_stale_Inr:
  assumes "remove_stale entity k ds entry m e = (Inr m', e', evs)" and "fst entry \<notin> set ds"
    and "has_label (lab_id entity) e"
  shows "\<not> check_mode m \<longrightarrow> (\<forall>i\<in>set (snd entry). \<not> fault e (RemoveAssignment k (lab_id entity) i))"
proof
  assume r: "\<not> check_mode m"
  with assms(1,2) obtain u e1 evs1 where
    "for_each (snd entry) (\<lambda>obj_id u. label_service_remove k (lab_id entity) obj_id) () e = (Inr u, e1, evs1)"
    by (auto simp: remove_stale_def elim!: io_bind_InrE)
  from remove_ids_Inr [OF this assms(3)]
  show "\<forall>i\<in>set (snd entry). \<not> fault e (RemoveAssignment k (lab_id entity) i)" .
qed

lemma remove_loop_ok:
  assumes "has_label (lab_id entity) e" and "remove_ok entity k m names ds e"
  shows "for_each names (remove_stale entity k ds) m e =
     (Inr (mark (stale names ds \<noteq> []) m),
      (if check_mode m then e else fold (unassign k (lab_id entity)) (to_remove names ds) e),
      remove_events k (lab_id entity) (check_mode m) names ds)"
  using assms
proof (induction names arbitrary: m e)
  case Nil
  then show ?case by (simp add: io_return_def remove_events_def)
next
  case (Cons entry names)
  show ?case
  proof (cases "fst entry \<in> set ds")
    case True
    from Cons.prems(2) True have ok: "remove_ok entity k m names ds e"
      by (simp add: remove_ok_def removal_Cons)
    from Cons.IH [OF Cons.prems(1) ok] True show ?thesis
      by (simp add: remove_stale_kept io_bind_def removal_Cons remove_events_def)
  next
    case False
    let ?m1 = "mark True m"
    let ?e1 = "if check_mode m then e else fold (unassign k (lab_id entity)) (snd entry) e"
    from Cons.prems(2) False have
      a: "\<not> check_mode m \<longrightarrow> (\<forall>i\<in>set (snd entry). \<not> fault e (RemoveAssignment k (lab_id entity) i))" and
      ok: "remove_ok entity k m names ds e"
      by (auto simp: remove_ok_def removal_Cons)
    note step = remove_stale_ok [OF False Cons.prems(1) a]
    have l1: "has_label (lab_id entity) ?e1" using Cons.prems(1) by simp
    have ok1: "remove_ok entity k ?m1 names ds ?e1" using ok by (simp add: remove_ok_def)
    from Cons.IH [OF l1 ok1] step False show ?thesis
      by (simp add: io_bind_def removal_Cons remove_events_def)
  qed
qed

lemma remove_loop_Inr:
  assumes "for_each names (remove_stale entity k ds) m e = (Inr m', e', evs)"
    and "has_label (lab_id entity) e"
  shows "remove_ok entity k m names ds e"
  using assms
proof (induction names arbitrary: m e evs)
  case Nil
  then show ?case by (simp add: remove_ok_def)
next
  case (Cons entry names)
  from Cons.prems(1) obtain m1 e1 evs1 evs2 where
    a: "remove_stale entity k ds entry m e = (Inr m1, e1, evs1)" and
    b: "for_each names (remove_stale entity k ds) m1 e1 = (Inr m', e', evs2)"
    by (auto elim: io_bind_InrE)
  show ?case
  proof (cases "fst entry \<in> set ds")
    case True
    with a have "m1 = m" "e1 = e" by (simp_all add: remove_stale_kept)
    with Cons.IH [OF b] Cons.prems(2) True show ?thesis by (simp add: remove_ok_def removal_Cons)
  next
    case False
    note f = remove_stale_Inr [OF a False Cons.prems(2)]
    from remove_stale_ok [OF False Cons.prems(2) f] a have
      m1: "m1 = mark True m" and
      e1: "e1 = (if check_mode m then e else fold (unassign k (lab_id entity)) (snd entry) e)"
      by simp_all
    have "has_label (lab_id entity) e1" using Cons.prems(2) e1 by simp
    from Cons.IH [OF b this] have "remove_ok entity k m names ds e"
      by (simp add: remove_ok_def m1 e1 split: if_splits)
    with f False show ?thesis by (auto simp: remove_ok_def removal_Cons)
  qed
qed

subsection \<open>One synchronisation\<close>

lemma follow_link_objs_result:
  "follow_link_objs k lid e =
     (if fault e (FollowLink k lid) then Inl (RemoteError (FollowLink k lid))
      else case find_label lid e of None \<Rightarrow> Inl (NotFound lid) | Some l \<Rightarrow> Inr (assigned k l),
      e, [FollowLink k lid])"
  by (simp add: follow_link_objs_def io_bind_def request_def io_return_def io_raise_def
      split: option.splits)

lemma follow_link_objs_Inr:
  "follow_link_objs k lid e = (Inr objs, e', evs) \<Longrightarrow>
   \<not> fault e (FollowLink k lid) \<and> (\<exists>l. find_label lid e = Some l \<and> objs = assigned k l) \<and> e' = e"
  by (cases "fault e (FollowLink k lid)"; cases "find_label lid e")
     (simp_all add: follow_link_objs_result)

lemma fault_after_adds [simp]:
  "remove_ok entity k (mark b m) names ds (fold (assign k' lid) ids e) = remove_ok entity k m names ds e"
  by (simp add: remove_ok_def)

lemma sync_feasible:
  assumes p: "param k m = Some ds" and f: "feasible entity k m ds e"
  shows "update_label_assignments entity k m e =
     (Inr (mark (sync_changed entity k m ds e) m), synced entity k m ds e, sync_events entity k m ds e)"
proof -
  let ?lid = "lab_id entity" and ?c = "p_cluster m"
  from f obtain l where
    l: "find_label ?lid e = Some l" and
    nf: "\<not> fault e (FollowLink k ?lid)" and
    rd: "\<forall>i\<in>set (assigned k l). readable k ?c e i" and
    ao: "add_ok entity k m (current k ?c ?lid e) ds e" and
    ro: "remove_ok entity k m (current k ?c ?lid e) ds e"
    by (auto simp: feasible_def split: option.splits)
  let ?names = "current k ?c ?lid e"
  have names: "?names = group (members k ?c (assigned k l) e) []" by (simp add: current_def l)
  have hl: "has_label ?lid e" by (simp add: has_label_def l)
  let ?m1 = "mark (to_add k ?c ?names ds e \<noteq> []) m"
  let ?e1 = "if check_mode m then e else fold (assign k ?lid) (to_add k ?c ?names ds e) e"
  have s1: "follow_link_objs k ?lid e = (Inr (assigned k l), e, [FollowLink k ?lid])"
    by (simp add: follow_link_objs_result nf l)
  have s2: "for_each (assigned k l) (collect m k) [] e =
      (Inr ?names, e, concat (map (read_events k ?c) (assigned k l)))"
    using collect_loop_readable [OF rd, of "[]"] by (simp add: names)
  have s3: "for_each ds (add_missing entity k ?names) m e =
      (Inr ?m1, ?e1, add_events k ?c ?lid (check_mode m) ?names ds e)"
    by (rule add_loop_ok [OF hl ao])
  have hl1: "has_label ?lid ?e1" using hl by simp
  have ro1: "remove_ok entity k ?m1 ?names ds ?e1" using ro by (simp add: remove_ok_def)
  have s4: "for_each ?names (remove_stale entity k ds) ?m1 ?e1 =
      (Inr (mark (stale ?names ds \<noteq> []) ?m1),
       (if check_mode ?m1 then ?e1 else fold (unassign k ?lid) (to_remove ?names ds) ?e1),
       remove_events k ?lid (check_mode ?m1) ?names ds)"
    by (rule remove_loop_ok [OF hl1 ro1])
  show ?thesis
    unfolding update_label_assignments_def p option.case
    by (simp add: io_bind_def s1 s2 s3 s4 sync_changed_def synced_def sync_events_def l)
qed

lemma sync_returns:
  assumes p: "param k m = Some ds"
    and r: "update_label_assignments entity k m e = (Inr m', e', evs)"
  shows "feasible entity k m ds e"
proof -
  let ?lid = "lab_id entity" and ?c = "p_cluster m"
  from r p have r0: "io_bind (follow_link_objs k ?lid) (\<lambda>objs.
      io_bind (for_each objs (collect m k) []) (\<lambda>objs_names.
      io_bind (for_each ds (add_missing entity k objs_names) m) (\<lambda>m1.
      for_each objs_names (remove_stale entity k ds) m1))) e = (Inr m', e', evs)"
    by (simp add: update_label_assignments_def)
  from r0 obtain objs e1 evs1 evsA where
    a: "follow_link_objs k ?lid e = (Inr objs, e1, evs1)" and
    r1: "io_bind (for_each objs (collect m k) []) (\<lambda>objs_names.
      io_bind (for_each ds (add_missing entity k objs_names) m) (\<lambda>m1.
      for_each objs_names (remove_stale entity k ds) m1)) e1 = (Inr m', e', evsA)"
    by (rule io_bind_InrE)
  from r1 obtain names e2 evs2 evsB where
    b: "for_each objs (collect m k) [] e1 = (Inr names, e2, evs2)" and
    r2: "io_bind (for_each ds (add_missing entity k names) m) (\<lambda>m1.
      for_each names (remove_stale entity k ds) m1) e2 = (Inr m', e', evsB)"
    by (rule io_bind_InrE)
  from r2 obtain m1 e3 evs3 evs4 where
    c: "for_each ds (add_missing entity k names) m e2 = (Inr m1, e3, evs3)" and
    d: "for_each names (remove_stale entity k ds) m1 e3 = (Inr m', e', evs4)"
    by (rule io_bind_InrE)
  from a obtain l where
    nf: "\<not> fault e (FollowLink k ?lid)" and l: "find_label ?lid e = Some l" and
    objs: "objs = assigned k l" and e1: "e1 = e"
    using follow_link_objs_Inr [OF a] by blast
  have hl: "has_label ?lid e" by (simp add: has_label_def l)
  from b have rd: "\<forall>i\<in>set (assigned k l). readable k ?c e i"
    unfolding objs e1 by (rule collect_loop_Inr)
  from collect_loop_readable [OF rd, of "[]"] b have
    names0: "names = group (members k ?c (assigned k l) e) []" and e2: "e2 = e"
    by (auto simp: objs e1)
  have names: "names = current k ?c ?lid e"
    by (simp add: names0 current_def l)
  from c have ao: "add_ok entity k m names ds e" unfolding e2 by (rule add_loop_Inr) (rule hl)
  from add_loop_ok [OF hl ao] c have
    m1: "m1 = mark (to_add k ?c names ds e \<noteq> []) m" and
    e3: "e3 = (if check_mode m then e else fold (assign k ?lid) (to_add k ?c names ds e) e)"
    by (simp_all add: e2)
  have hl3: "has_label ?lid e3" using hl by (simp add: e3)
  from remove_loop_Inr [OF d hl3] have ro: "remove_ok entity k m names ds e"
    by (simp add: remove_ok_def m1 e3 split: if_splits)
  show ?thesis
    using nf l rd ao ro by (simp add: feasible_def names)
qed

subsection \<open>Dry runs\<close>

lemma quiet_return [simp]: "quiet (io_return x)"
  by (simp add: quiet_def io_return_def)

lemma quiet_raise [simp]: "quiet (io_raise err)"
  by (simp add: quiet_def io_raise_def)

lemma quiet_request: "\<not> is_mutation ev \<Longrightarrow> quiet (request ev)"
  by (auto simp: quiet_def request_def)

lemma quiet_bind_result:
  assumes "quiet f" and "\<And>x e e' evs. f e = (Inr x, e', evs) \<Longrightarrow> quiet (g x)"
  shows "quiet (io_bind f g)"
  unfolding quiet_def
proof (intro allI impI)
  fix e r e' evs
  assume r: "io_bind f g e = (r, e', evs)"
  obtain r1 e1 evs1 where a: "f e = (r1, e1, evs1)" by (cases "f e") auto
  with assms(1) have q1: "e1 = e" "\<forall>ev\<in>set evs1. \<not> is_mutation ev" by (auto simp: quiet_def)
  show "e' = e \<and> (\<forall>ev\<in>set evs. \<not> is_mutation ev)"
  proof (cases r1)
    case (Inl err)
    with r a q1 show ?thesis by (simp add: io_bind_def)
  next
    case (Inr x)
    with a have "quiet (g x)" using assms(2) by blast
    moreover obtain r2 e2 evs2 where c: "g x e1 = (r2, e2, evs2)" by (cases "g x e1") auto
    ultimately have "e2 = e1" "\<forall>ev\<in>set evs2. \<not> is_mutation ev" by (auto simp: quiet_def)
    with r a c Inr q1 show ?thesis by (auto simp: io_bind_def)
  qed
qed

lemma quiet_bind: "quiet f \<Longrightarrow> (\<And>x. quiet (g x)) \<Longrightarrow> quiet (io_bind f g)"
  by (rule quiet_bind_result)

lemma quiet_state: "(\<And>e. quiet (\<lambda>e'. f e e')) \<Longrightarrow> quiet (\<lambda>e. f e e)"
  unfolding quiet_def by blast

lemma quiet_for_each:
  assumes "P s" and "\<And>x s. P s \<Longrightarrow> quiet (body x s)"
    and "\<And>x s e s' e' evs. P s \<Longrightarrow> body x s e = (Inr s', e', evs) \<Longrightarrow> P s'"
  shows "quiet (for_each xs body s)"
  using assms(1)
proof (induction xs arbitrary: s)
  case Nil
  then show ?case by simp
next
  case (Cons x xs)
  have a: "quiet (body x s)" by (rule assms(2) [OF Cons.prems])
  show ?case
    unfolding quiet_def
  proof (intro allI impI)
    fix e r e' evs
    assume r: "for_each (x # xs) body s e = (r, e', evs)"
    obtain r1 e1 evs1 where b: "body x s e = (r1, e1, evs1)" by (cases "body x s e") auto
    from a b have q1: "e1 = e" "\<forall>ev\<in>set evs1. \<not> is_mutation ev" by (auto simp: quiet_def)
    show "e' = e \<and> (\<forall>ev\<in>set evs. \<not> is_mutation ev)"
    proof (cases r1)
      case (Inl err)
      with r b q1 show ?thesis by (simp add: io_bind_def)
    next
      case (Inr s1)
      with b Cons.prems have "P s1" using assms(3) by blast
      then have q: "quiet (for_each xs body s1)" by (rule Cons.IH)
      obtain r2 e2 evs2 where c: "for_each xs body s1 e1 = (r2, e2, evs2)"
        by (cases "for_each xs body s1 e1") auto
      with q have "e2 = e1" "\<forall>ev\<in>set evs2. \<not> is_mutation ev" by (auto simp: quiet_def)
      with r b c Inr q1 show ?thesis by (auto simp: io_bind_def)
    qed
  qed
qed

lemma quiet_follow_link_objs: "quiet (follow_link_objs k lid)"
  by (auto simp: quiet_def follow_link_objs_result is_mutation_def)

lemma quiet_service_get: "quiet (service_get k i)"
  by (auto simp: quiet_def service_get_def io_bind_def request_def io_return_def io_raise_def
      is_mutation_def split: option.splits if_splits)

lemma quiet_follow_link_cluster: "quiet (follow_link_cluster k x)"
  by (auto simp: quiet_def follow_link_cluster_def io_bind_def request_def io_return_def
      is_mutation_def split: if_splits)

lemma quiet_collect: "quiet (collect m k i acc)"
proof (cases "p_cluster m")
  case None
  then show ?thesis
    unfolding collect_def by (intro quiet_bind quiet_service_get) simp
next
  case (Some c)
  have "quiet (io_bind (follow_link_cluster k x) (\<lambda>cn.
          if cn = c then io_return (append_id (ent_name x) i acc) else io_return acc))" for x
    by (intro quiet_bind quiet_follow_link_cluster) simp
  with Some show ?thesis
    unfolding collect_def by (intro quiet_bind quiet_service_get) simp
qed

lemma quiet_service_list: "quiet (service_list k n c)"
  by (auto simp: quiet_def service_list_result is_mutation_def)

lemma add_found_check_mode:
  "add_found entity k x m e = (Inr m', e', evs) \<Longrightarrow> check_mode m' = check_mode m"
  by (auto simp: add_found_def io_return_def elim!: io_bind_InrE)

lemma quiet_add_found: "check_mode m \<Longrightarrow> quiet (add_found entity k x m)"
  by (simp add: add_found_def quiet_bind)

lemma quiet_add_missing: "check_mode m \<Longrightarrow> quiet (add_missing entity k names n m)"
  unfolding add_missing_def
  by (auto intro!: quiet_bind quiet_service_list quiet_for_each [where P = check_mode]
      quiet_add_found dest: add_found_check_mode)

lemma add_missing_check_mode:
  assumes "add_missing entity k names n m e = (Inr m', e', evs)"
  shows "check_mode m' = check_mode m"
proof (cases "n \<in> set (map fst names)")
  case True
  with assms show ?thesis by (simp add: add_missing_known)
next
  case False
  have "check_mode m' = check_mode m"
    if "for_each found (add_found entity k) m e1 = (Inr m', e', evs2)" for found e1 evs2
    using that
    by (induction found arbitrary: m e1 evs2)
       (auto simp: io_return_def elim!: io_bind_InrE dest!: add_found_check_mode)
  with assms False show ?thesis
    by (auto simp: add_missing_def elim!: io_bind_InrE)
qed

lemma remove_stale_check_mode:
  "remove_stale entity k ds entry m e = (Inr m', e', evs) \<Longrightarrow> check_mode m' = check_mode m"
  by (auto simp: remove_stale_def io_return_def elim!: io_bind_InrE split: if_splits)

lemma quiet_remove_stale: "check_mode m \<Longrightarrow> quiet (remove_stale entity k ds entry m)"
  by (simp add: remove_stale_def quiet_bind)

lemma for_each_check_mode:
  assumes "\<And>x s e s' e' evs. body x s e = (Inr s', e', evs) \<Longrightarrow> check_mode s' = check_mode s"
    and "for_each xs body m e = (Inr m', e', evs)"
  shows "check_mode m' = check_mode m"
  using assms(2)
proof (induction xs arbitrary: m e evs)
  case Nil
  then show ?case by (simp add: io_return_def)
next
  case (Cons x xs)
  from Cons.prems obtain m1 e1 evs1 evs2 where
    "body x m e = (Inr m1, e1, evs1)" "for_each xs body m1 e1 = (Inr m', e', evs2)"
    by (auto elim: io_bind_InrE)
  with Cons.IH assms(1) show ?case by metis
qed

lemma quiet_sync:
  assumes "check_mode m"
  shows "quiet (update_label_assignments entity k m)"
proof (cases "param k m")
  case None
  then show ?thesis by (simp add: update_label_assignments_def)
next
  case (Some ds)
  have adding: "quiet (for_each ds (add_missing entity k names) m)" for names
    by (rule quiet_for_each [where P = check_mode])
       (auto simp: assms add_missing_check_mode intro: quiet_add_missing)
  have removing: "quiet (for_each names (remove_stale entity k ds) m1)"
    if "for_each ds (add_missing entity k names) m e = (Inr m1, e', evs)" for names m1 e e' evs
  proof -
    from that have "check_mode m1 = check_mode m"
      by (rule for_each_check_mode [rotated]) (rule add_missing_check_mode)
    with assms have "check_mode m1" by simp
    then show ?thesis
      by (rule quiet_for_each [where P = check_mode])
         (auto simp: remove_stale_check_mode intro: quiet_remove_stale)
  qed
  have grouping: "quiet (for_each objs (collect m k) [])" for objs
    by (rule quiet_for_each [where P = "\<lambda>s. True"]) (simp_all add: quiet_collect)
  show ?thesis
    unfolding update_label_assignments_def Some option.case
    by (intro quiet_bind_result quiet_follow_link_objs grouping adding) (erule removing)
qed

subsection \<open>What a returning synchronisation has done\<close>

lemma sync_result:
  assumes "update_label_assignments entity k m e = (Inr m', e', evs)"
  shows "m' = mark (case param k m of None \<Rightarrow> False | Some ds \<Rightarrow> sync_changed entity k m ds e) m"
    and "e' = (case param k m of None \<Rightarrow> e | Some ds \<Rightarrow> synced entity k m ds e)"
    and "evs = (case param k m of None \<Rightarrow> [] | Some ds \<Rightarrow> sync_events entity k m ds e)"
proof -
  have "m' = mark (case param k m of None \<Rightarrow> False | Some ds \<Rightarrow> sync_changed entity k m ds e) m \<and>
        e' = (case param k m of None \<Rightarrow> e | Some ds \<Rightarrow> synced entity k m ds e) \<and>
        evs = (case param k m of None \<Rightarrow> [] | Some ds \<Rightarrow> sync_events entity k m ds e)"
  proof (cases "param k m")
    case None
    with assms show ?thesis by (simp add: update_label_assignments_def io_return_def)
  next
    case (Some ds)
    from sync_feasible [OF Some sync_returns [OF Some assms]] assms Some show ?thesis by simp
  qed
  then show "m' = mark (case param k m of None \<Rightarrow> False | Some ds \<Rightarrow> sync_changed entity k m ds e) m"
    and "e' = (case param k m of None \<Rightarrow> e | Some ds \<Rightarrow> synced entity k m ds e)"
    and "evs = (case param k m of None \<Rightarrow> [] | Some ds \<Rightarrow> sync_events entity k m ds e)"
    by simp_all
qed

lemma sync_check_mode:
  "update_label_assignments entity k m e = (Inr m', e', evs) \<Longrightarrow> check_mode m' = check_mode m"
  by (drule sync_result(1)) simp

lemma sync_params:
  "update_label_assignments entity k m e = (Inr m', e', evs) \<Longrightarrow>
   p_cluster m' = p_cluster m \<and> param k' m' = param k' m"
  by (drule sync_result(1)) simp

lemma assigned_other_kind:
  "k' \<noteq> k \<Longrightarrow>
   map_option (assigned k') (find_label lid' (assign k lid i e)) = map_option (assigned k') (find_label lid' e) \<and>
   map_option (assigned k') (find_label lid' (unassign k lid i e)) = map_option (assigned k') (find_label lid' e)"
  by (auto simp: find_label_assign find_label_unassign assigned_set_assigned split: option.splits)

lemma same_view_refl [simp]: "same_view k lid e e"
  by (simp add: same_view_def)

lemma same_view_fold_assign: "k' \<noteq> k \<Longrightarrow> same_view k' lid' e (fold (assign k lid) ids e)"
proof (induction ids arbitrary: e)
  case Nil
  then show ?case by simp
next
  case (Cons i ids)
  from Cons.IH [OF Cons.prems, of "assign k lid i e"] assigned_other_kind [OF Cons.prems, of lid' lid i e]
  show ?case by (simp add: same_view_def)
qed

lemma same_view_fold_unassign: "k' \<noteq> k \<Longrightarrow> same_view k' lid' e (fold (unassign k lid) ids e)"
proof (induction ids arbitrary: e)
  case Nil
  then show ?case by simp
next
  case (Cons i ids)
  from Cons.IH [OF Cons.prems, of "unassign k lid i e"] assigned_other_kind [OF Cons.prems, of lid' lid i e]
  show ?case by (simp add: same_view_def)
qed

lemma same_view_trans: "same_view k lid e e1 \<Longrightarrow> same_view k lid e1 e2 \<Longrightarrow> same_view k lid e e2"
  by (simp add: same_view_def)

lemma same_view_synced: "k' \<noteq> k \<Longrightarrow> same_view k' lid' e (synced entity k m ds e)"
  unfolding synced_def
  by (auto intro: same_view_trans same_view_fold_assign same_view_fold_unassign)

lemma same_view_find_entity: "same_view k lid e e' \<Longrightarrow> find_entity k i e' = find_entity k i e"
  by (simp add: same_view_def find_entity_def)

lemma same_view_members: "same_view k lid e e' \<Longrightarrow> members k c objs e' = members k c objs e"
proof -
  assume "same_view k lid e e'"
  then have "(\<lambda>i. find_entity k i e') = (\<lambda>i. find_entity k i e)"
    by (simp add: same_view_find_entity)
  then show ?thesis by (simp add: members_def)
qed

lemma same_view_current:
  assumes "same_view k lid e e'"
  shows "current k c lid e' = current k c lid e"
proof -
  from assms have "map_option (assigned k) (find_label lid e') = map_option (assigned k) (find_label lid e)"
    by (simp add: same_view_def)
  then show ?thesis
    by (cases "find_label lid e"; cases "find_label lid e'")
       (simp_all add: current_def same_view_members [OF assms])
qed

lemma same_view_matching: "same_view k lid e e' \<Longrightarrow> matching k n c e' = matching k n c e"
  by (simp add: same_view_def matching_def)

lemma same_view_to_add: "same_view k lid e e' \<Longrightarrow> to_add k c names ds e' = to_add k c names ds e"
  by (simp add: to_add_def same_view_matching)

lemma same_view_sync_changed:
  "same_view k (lab_id entity) e e' \<Longrightarrow> sync_changed entity k m ds e' = sync_changed entity k m ds e"
  by (simp add: sync_changed_def same_view_current same_view_to_add)

lemma same_view_feasible:
  assumes "same_view k (lab_id entity) e e'"
  shows "feasible entity k m ds e' = feasible entity k m ds e"
proof -
  from assms have f: "fault e' = fault e" and
    a: "map_option (assigned k) (find_label (lab_id entity) e') = map_option (assigned k) (find_label (lab_id entity) e)"
    by (simp_all add: same_view_def)
  have r: "readable k c e' i = readable k c e i" for c i
    by (simp add: readable_def f same_view_find_entity [OF assms])
  have ao: "add_ok entity k m names ds e' = add_ok entity k m names ds e" for names
    by (simp add: add_ok_def f same_view_to_add [OF assms])
  have ro: "remove_ok entity k m names ds e' = remove_ok entity k m names ds e" for names
    by (simp add: remove_ok_def f)
  from a show ?thesis
    by (cases "find_label (lab_id entity) e"; cases "find_label (lab_id entity) e'")
       (simp_all add: feasible_def f r ao ro same_view_current [OF assms])
qed

subsection \<open>Both kinds, and the dry run beside the real one\<close>

lemma check_mode_True: "check_mode m \<Longrightarrow> m\<lparr>check_mode := True\<rparr> = m"
  by (cases m) simp

lemma mark_check_mode: "(mark b m)\<lparr>check_mode := c\<rparr> = mark b (m\<lparr>check_mode := c\<rparr>)"
  by (simp add: mark_def)

lemma param_check_mode [simp]: "param k (m\<lparr>check_mode := c\<rparr>) = param k m"
  by (simp add: param_def split: kind.splits)

lemma feasible_dry:
  "feasible entity k m ds e \<Longrightarrow> feasible entity k (m\<lparr>check_mode := True\<rparr>) ds e"
  by (auto simp: feasible_def add_ok_def remove_ok_def split: option.splits)

lemma sync_changed_check_mode [simp]:
  "sync_changed entity k (m\<lparr>check_mode := c\<rparr>) ds e = sync_changed entity k m ds e"
  by (simp add: sync_changed_def)

lemma dry_of_real:
  assumes "update_label_assignments entity k m e = (Inr m', e', evs)"
  shows "\<exists>evs'. update_label_assignments entity k (m\<lparr>check_mode := True\<rparr>) e =
           (Inr (m'\<lparr>check_mode := True\<rparr>), e, evs')"
proof (cases "param k m")
  case None
  with assms show ?thesis by (simp add: update_label_assignments_def io_return_def)
next
  case (Some ds)
  from sync_result(1) [OF assms] Some have m': "m' = mark (sync_changed entity k m ds e) m" by simp
  have p: "param k (m\<lparr>check_mode := True\<rparr>) = Some ds" using Some by simp
  from sync_feasible [OF p feasible_dry [OF sync_returns [OF Some assms]]]
  show ?thesis by (simp add: m' mark_check_mode synced_def)
qed

lemma sync_same_view:
  assumes "same_view k (lab_id entity) e e1"
    and "update_label_assignments entity k m e1 = (Inr m', e1', evs1)"
  shows "\<exists>e' evs. update_label_assignments entity k m e = (Inr m', e', evs)"
proof (cases "param k m")
  case None
  with assms(2) show ?thesis by (simp add: update_label_assignments_def io_return_def)
next
  case (Some ds)
  from sync_result(1) [OF assms(2)] Some have "m' = mark (sync_changed entity k m ds e1) m" by simp
  then have m': "m' = mark (sync_changed entity k m ds e) m"
    by (simp add: same_view_sync_changed [OF assms(1)])
  from sync_returns [OF Some assms(2)] have "feasible entity k m ds e"
    by (simp add: same_view_feasible [OF assms(1)])
  from sync_feasible [OF Some this] show ?thesis by (simp add: m')
qed

lemma update_check_InrE:
  assumes "update_check entity m e = (Inr (b, m'), e', evs)"
  obtains m1 e1 evs1 evs2 where
    "update_label_assignments entity Vms m e = (Inr m1, e1, evs1)"
    "update_label_assignments entity Hosts m1 e1 = (Inr m', e', evs2)"
    "evs = evs1 @ evs2" "b"
proof -
  from assms obtain m1 e1 evs1 evsA where
    a: "update_label_assignments entity Vms m e = (Inr m1, e1, evs1)" and
    r: "io_bind (update_label_assignments entity Hosts m1) (\<lambda>m2. io_return (True, m2)) e1 = (Inr (b, m'), e', evsA)" and
    ev: "evs = evs1 @ evsA"
    unfolding update_check_def by (rule io_bind_InrE)
  from r obtain m2 e2 evs2 evs3 where
    b: "update_label_assignments entity Hosts m1 e1 = (Inr m2, e2, evs2)" and
    c: "io_return (True, m2) e2 = (Inr (b, m'), e', evs3)" and ev2: "evsA = evs2 @ evs3"
    by (rule io_bind_InrE)
  from c have "b" "m2 = m'" "e2 = e'" "evs3 = []" by (simp_all add: io_return_def)
  with a b ev ev2 that show ?thesis by simp
qed

lemma update_check_Inr:
  "update_label_assignments entity Vms m e = (Inr m1, e1, evs1) \<Longrightarrow>
   update_label_assignments entity Hosts m1 e1 = (Inr m2, e2, evs2) \<Longrightarrow>
   update_check entity m e = (Inr (True, m2), e2, evs1 @ evs2)"
  by (simp add: update_check_def io_bind_def io_return_def)

lemma sync_leaves_other_kind:
  assumes "update_label_assignments entity k m e = (Inr m', e', evs)" and "k' \<noteq> k"
  shows "same_view k' lid e e'"
proof (cases "param k m")
  case None
  with assms(1) show ?thesis by (simp add: update_label_assignments_def io_return_def)
next
  case (Some ds)
  with sync_result(2) [OF assms(1)] have "e' = synced entity k m ds e" by simp
  with assms(2) show ?thesis by (simp add: same_view_synced)
qed

lemma quiet_update_check:
  assumes "check_mode m"
  shows "quiet (update_check entity m)"
  unfolding update_check_def
proof (rule quiet_bind_result)
  show "quiet (update_label_assignments entity Vms m)" using assms by (rule quiet_sync)
next
  fix m1 e e' evs
  assume "update_label_assignments entity Vms m e = (Inr m1, e', evs)"
  then have "check_mode m1" using assms by (simp add: sync_check_mode)
  then have "quiet (update_label_assignments entity Hosts m1)" by (rule quiet_sync)
  then show "quiet (io_bind (update_label_assignments entity Hosts m1) (\<lambda>m2. io_return (True, m2)))"
    by (rule quiet_bind) simp
qed

subsection \<open>The names and the ids of the plan\<close>

lemma keys_append_id: "fst ` set (append_id n i acc) = insert n (fst ` set acc)"
proof (induction acc)
  case Nil
  then show ?case by simp
next
  case (Cons entry acc)
  obtain n' ids where entry: "entry = (n', ids)" by (cases entry)
  show ?case
  proof (cases "n = n'")
    case True
    then show ?thesis by (simp add: entry insert_absorb)
  next
    case False
    with Cons.IH show ?thesis by (simp add: entry insert_commute)
  qed
qed

lemma keys_group: "fst ` set (group xs acc) = fst ` set acc \<union> ent_name ` set xs"
proof (induction xs arbitrary: acc)
  case Nil
  then show ?case by (simp add: group_def)
next
  case (Cons x xs)
  have "group (x # xs) acc = group xs (append_id (ent_name x) (ent_id x) acc)"
    by (simp add: group_def)
  then show ?case by (simp add: Cons.IH keys_append_id)
qed

lemma to_remove_append_id:
  "set (to_remove (append_id n i acc) ds) = set (to_remove acc ds) \<union> (if n \<in> set ds then {} else {i})"
proof (induction acc)
  case Nil
  then show ?case by (simp add: removal_Cons)
next
  case (Cons entry acc)
  obtain n' ids where entry: "entry = (n', ids)" by (cases entry)
  show ?case
  proof (cases "n = n'")
    case True
    then show ?thesis by (auto simp: entry removal_Cons)
  next
    case False
    then have "set (to_remove (append_id n i (entry # acc)) ds) =
        set (if n' \<in> set ds then [] else ids) \<union> set (to_remove (append_id n i acc) ds)"
      by (simp add: entry removal_Cons)
    also have "\<dots> = set (if n' \<in> set ds then [] else ids) \<union>
        (set (to_remove acc ds) \<union> (if n \<in> set ds then {} else {i}))"
      by (simp only: Cons.IH)
    also have "\<dots> = set (to_remove (entry # acc) ds) \<union> (if n \<in> set ds then {} else {i})"
      by (simp add: entry removal_Cons Un_assoc)
    finally show ?thesis .
  qed
qed

lemma to_remove_group:
  "set (to_remove (group xs acc) ds) =
     set (to_remove acc ds) \<union> ent_id ` {x \<in> set xs. ent_name x \<notin> set ds}"
proof (induction xs arbitrary: acc)
  case Nil
  then show ?case by (simp add: group_def)
next
  case (Cons x xs)
  have "group (x # xs) acc = group xs (append_id (ent_name x) (ent_id x) acc)"
    by (simp add: group_def)
  then show ?case by (auto simp: Cons.IH to_remove_append_id)
qed

lemma stale_empty_iff: "stale names ds = [] \<longleftrightarrow> fst ` set names \<subseteq> set ds"
  by (auto simp: stale_def filter_empty_conv)

lemma to_add_set:
  "set (to_add k c names ds e) =
     {ent_id x |x n. n \<in> set ds \<and> n \<notin> fst ` set names \<and> x \<in> set (matching k n c e)}"
  by (auto simp: to_add_def missing_def)

lemma filter_concat_map: "filter P (concat (map f xs)) = concat (map (\<lambda>x. filter P (f x)) xs)"
  by (induction xs) simp_all

lemma read_events_quiet: "filter is_mutation (read_events k c i) = []"
  by (simp add: read_events_def is_mutation_def split: option.splits)

lemma mutations_of_add_events:
  "filter is_mutation (add_events k c lid dry names ds e) =
     (if dry then [] else map (AddAssignment k lid) (to_add k c names ds e))"
proof -
  have a: "filter is_mutation (map (\<lambda>x. AddAssignment k lid (ent_id x)) xs) =
      map (AddAssignment k lid) (map ent_id xs)" for xs
    by (induction xs) (simp_all add: is_mutation_def)
  have b: "\<not> is_mutation (ListSearch k q)" for q by (simp add: is_mutation_def)
  show ?thesis
    by (simp add: add_events_def to_add_def filter_concat_map a b map_concat comp_def)
qed

lemma mutations_of_remove_events:
  "filter is_mutation (remove_events k lid dry names ds) =
     (if dry then [] else map (RemoveAssignment k lid) (to_remove names ds))"
proof -
  have "filter is_mutation (map (RemoveAssignment k lid) xs) = map (RemoveAssignment k lid) xs" for xs
    by (induction xs) (simp_all add: is_mutation_def)
  then show ?thesis by (simp add: remove_events_def)
qed

lemma mutations_of_sync:
  "filter is_mutation (sync_events entity k m ds e) =
     (if check_mode m then []
      else map (AddAssignment k (lab_id entity))
             (to_add k (p_cluster m) (current k (p_cluster m) (lab_id entity) e) ds e) @
           map (RemoveAssignment k (lab_id entity))
             (to_remove (current k (p_cluster m) (lab_id entity) e) ds))"
  by (simp add: sync_events_def mutations_of_add_events mutations_of_remove_events
      filter_concat_map read_events_quiet is_mutation_def)

lemma mutation_in_filter: "is_mutation ev \<Longrightarrow> ev \<in> set evs \<longleftrightarrow> ev \<in> set (filter is_mutation evs)"
  by simp

subsection \<open>A desired name that resolves to nothing\<close>

lemma set_param_simps [simp]:
  "param k (set_param k v m) = v"
  "p_cluster (set_param k v m) = p_cluster m"
  "check_mode (set_param k v m) = check_mode m"
  "changed (set_param k v m) = changed m"
  by (cases k; simp add: set_param_def param_def)+

lemma missing_removeAll: "missing names (removeAll n ds) = removeAll n (missing names ds)"
  unfolding missing_def removeAll_filter_not_eq filter_filter
  by (rule filter_cong) auto

lemma concat_map_removeAll: "f n = [] \<Longrightarrow> concat (map f (removeAll n xs)) = concat (map f xs)"
  by (induction xs) auto

lemma to_add_removeAll:
  "matching k n c e = [] \<Longrightarrow> to_add k c names (removeAll n ds) e = to_add k c names ds e"
  by (simp add: to_add_def missing_removeAll concat_map_removeAll)

lemma stale_removeAll:
  assumes "n \<notin> fst ` set names"
  shows "stale names (removeAll n ds) = stale names ds"
proof -
  have "fst entry \<notin> set (removeAll n ds) \<longleftrightarrow> fst entry \<notin> set ds" if "entry \<in> set names" for entry
    using that assms by auto
  then show ?thesis unfolding stale_def by (rule filter_cong [OF refl])
qed

lemma to_remove_removeAll:
  "n \<notin> fst ` set names \<Longrightarrow> to_remove names (removeAll n ds) = to_remove names ds"
  by (simp add: to_remove_def stale_removeAll)

lemma add_ok_removeAll:
  assumes "matching k n (p_cluster m) e = []"
    and "\<not> fault e (ListSearch k (search_query n (p_cluster m)))"
    and "p_cluster m2 = p_cluster m" and "check_mode m2 = check_mode m"
  shows "add_ok entity k m2 names (removeAll n ds) e = add_ok entity k m names ds e"
  using assms by (auto simp: add_ok_def to_add_removeAll missing_removeAll)

lemma feasible_removeAll:
  assumes "n \<notin> fst ` set (current k (p_cluster m) (lab_id entity) e)"
    and "matching k n (p_cluster m) e = []"
    and "\<not> fault e (ListSearch k (search_query n (p_cluster m)))"
  shows "feasible entity k (set_param k (Some (removeAll n ds)) m) (removeAll n ds) e =
         feasible entity k m ds e"
  using assms
  by (simp add: feasible_def add_ok_removeAll [OF assms(2,3)] remove_ok_def to_remove_removeAll
      split: option.splits)

lemma plan_removeAll:
  assumes "n \<notin> fst ` set (current k (p_cluster m) (lab_id entity) e)"
    and "matching k n (p_cluster m) e = []"
  shows "sync_changed entity k (set_param k (Some (removeAll n ds)) m) (removeAll n ds) e =
         sync_changed entity k m ds e"
    and "synced entity k (set_param k (Some (removeAll n ds)) m) (removeAll n ds) e =
         synced entity k m ds e"
    and "filter is_mutation (sync_events entity k (set_param k (Some (removeAll n ds)) m) (removeAll n ds) e) =
         filter is_mutation (sync_events entity k m ds e)"
  using assms
  by (simp_all add: sync_changed_def synced_def mutations_of_sync to_add_removeAll
      to_remove_removeAll stale_removeAll)

subsection \<open>The assignments after a synchronisation\<close>

lemma assigned_fold_assign:
  "find_label lid e = Some l \<Longrightarrow>
   \<exists>l'. find_label lid (fold (assign k lid) ids e) = Some l' \<and>
        set (assigned k l') = set (assigned k l) \<union> set ids"
proof (induction ids arbitrary: e l)
  case Nil
  then show ?case by simp
next
  case (Cons i ids)
  let ?l1 = "set_assigned k (List.insert i (assigned k l)) l"
  have "find_label lid (assign k lid i e) = Some ?l1"
    by (simp add: find_label_assign Cons.prems)
  from Cons.IH [OF this] show ?case by (auto simp: assigned_set_assigned)
qed

lemma assigned_fold_unassign:
  "find_label lid e = Some l \<Longrightarrow>
   \<exists>l'. find_label lid (fold (unassign k lid) ids e) = Some l' \<and>
        set (assigned k l') = set (assigned k l) - set ids"
proof (induction ids arbitrary: e l)
  case Nil
  then show ?case by simp
next
  case (Cons i ids)
  let ?l1 = "set_assigned k (removeAll i (assigned k l)) l"
  have "find_label lid (unassign k lid i e) = Some ?l1"
    by (simp add: find_label_unassign Cons.prems)
  from Cons.IH [OF this] show ?case by (auto simp: assigned_set_assigned)
qed

lemma assigned_synced:
  assumes "find_label (lab_id entity) e = Some l"
  shows "\<exists>l'. find_label (lab_id entity) (synced entity k m ds e) = Some l' \<and>
      set (assigned k l') =
        (if check_mode m then set (assigned k l)
         else (set (assigned k l) \<union>
               set (to_add k (p_cluster m) (current k (p_cluster m) (lab_id entity) e) ds e)) -
              set (to_remove (current k (p_cluster m) (lab_id entity) e) ds))"
proof (cases "check_mode m")
  case True
  with assms show ?thesis by (simp add: synced_def)
next
  case False
  let ?adds = "to_add k (p_cluster m) (current k (p_cluster m) (lab_id entity) e) ds e"
  from assigned_fold_assign [OF assms, of k ?adds] obtain l1 where
    l1: "find_label (lab_id entity) (fold (assign k (lab_id entity)) ?adds e) = Some l1"
      "set (assigned k l1) = set (assigned k l) \<union> set ?adds" by blast
  from assigned_fold_unassign [OF l1(1), of k "to_remove (current k (p_cluster m) (lab_id entity) e) ds"] l1(2) False
  show ?thesis by (simp add: synced_def)
qed

lemma members_set:
  "set (members k c objs e) = {y. \<exists>i\<in>set objs. find_entity k i e = Some y \<and> in_scope c y}"
proof -
  have "set (List.map_filter f xs) = {y. \<exists>i\<in>set xs. f i = Some y}" for f :: "string \<Rightarrow> entity option" and xs
    by (induction xs) (auto simp: List.map_filter_simps split: option.splits)
  then show ?thesis by (auto simp: members_def)
qed

lemma ids_of_group:
  "(\<Union>entry\<in>set (group xs acc). set (snd entry)) = (\<Union>entry\<in>set acc. set (snd entry)) \<union> ent_id ` set xs"
  using to_remove_group [of xs acc "[]"] by (simp add: to_remove_def stale_def)

lemma ids_of_current:
  "find_label lid e = Some l \<Longrightarrow>
   (\<Union>entry\<in>set (current k c lid e). set (snd entry)) = ent_id ` set (members k c (assigned k l) e)"
  by (simp add: current_def ids_of_group)

lemma to_remove_subset: "set (to_remove names ds) \<subseteq> (\<Union>entry\<in>set names. set (snd entry))"
  by (auto simp: to_remove_def stale_def)

lemma out_of_scope_not_member:
  assumes "find_entity k i e = Some x" and "\<not> in_scope c x"
  shows "i \<notin> ent_id ` set (members k c objs e)"
proof
  assume "i \<in> ent_id ` set (members k c objs e)"
  then obtain y j where "ent_id y = i" "find_entity k j e = Some y" "in_scope c y"
    by (auto simp: members_set)
  moreover from this have "j = i" by (auto dest: find_entity_id)
  ultimately show False using assms by simp
qed

lemma members_removeAll:
  assumes "find_entity k i e = Some x" and "\<not> in_scope c x"
  shows "members k c (removeAll i objs) e = members k c objs e"
  using assms by (induction objs) (auto simp: members_def split: option.splits)

subsection \<open>An assignment outside the cluster filter\<close>

lemma find_entity_unassign [simp]: "find_entity k' j (unassign k lid i e) = find_entity k' j e"
  by (simp add: find_entity_def)

lemma members_unassign [simp]: "members k' c objs (unassign k lid i e) = members k' c objs e"
  by (simp add: members_def)

lemma matching_unassign [simp]: "matching k' n c (unassign k lid i e) = matching k' n c e"
  by (simp add: matching_def)

lemma to_add_unassign [simp]: "to_add k' c names ds (unassign k lid i e) = to_add k' c names ds e"
  by (simp add: to_add_def)

lemma add_events_unassign [simp]:
  "add_events k' c lid' dry names ds (unassign k lid i e) = add_events k' c lid' dry names ds e"
  by (simp add: add_events_def cong: if_cong)

lemma current_unassign_out_of_scope:
  assumes "find_entity k i e = Some x" and "\<not> in_scope c x"
  shows "current k c lid (unassign k lid i e) = current k c lid e"
  using assms
  by (simp add: current_def find_label_unassign assigned_set_assigned members_removeAll
      split: option.splits)

lemma feasible_unassign_out_of_scope:
  assumes "find_entity k i e = Some x" and "\<not> in_scope (p_cluster m) x"
    and "feasible entity k m ds e"
  shows "feasible entity k m ds (unassign k (lab_id entity) i e)"
proof -
  from assms(3) obtain l where l: "find_label (lab_id entity) e = Some l"
    by (auto simp: feasible_def split: option.splits)
  have r: "readable k c (unassign k (lab_id entity) i e) j = readable k c e j" for c j
    by (simp add: readable_def)
  have ao: "add_ok entity k m names ds (unassign k (lab_id entity) i e) = add_ok entity k m names ds e" for names
    by (simp add: add_ok_def)
  have ro: "remove_ok entity k m names ds (unassign k (lab_id entity) i e) = remove_ok entity k m names ds e" for names
    by (simp add: remove_ok_def)
  from assms(3) show ?thesis
    by (simp add: feasible_def l find_label_unassign assigned_set_assigned r ao ro
        current_unassign_out_of_scope [OF assms(1,2)])
qed

lemma plan_unassign_out_of_scope:
  assumes "find_entity k i e = Some x" and "\<not> in_scope (p_cluster m) x"
  shows "sync_changed entity k m ds (unassign k (lab_id entity) i e) = sync_changed entity k m ds e"
    and "filter is_mutation (sync_events entity k m ds (unassign k (lab_id entity) i e)) =
         filter is_mutation (sync_events entity k m ds e)"
  by (simp_all add: sync_changed_def mutations_of_sync current_unassign_out_of_scope [OF assms])

subsection \<open>The names after a synchronisation\<close>

lemma find_entity_distinct:
  assumes "distinct (map ent_id (tab k e))" and "x \<in> set (tab k e)"
  shows "find_entity k (ent_id x) e = Some x"
proof -
  have "find (\<lambda>z. ent_id z = ent_id x) xs = Some x"
    if "distinct (map ent_id xs)" "x \<in> set xs" for xs
    using that by (induction xs) (auto simp: image_iff)
  with assms show ?thesis by (simp add: find_entity_def)
qed

lemma matching_member:
  "x \<in> set (matching k n c e) \<Longrightarrow> x \<in> set (tab k e) \<and> ent_name x = n \<and> in_scope c x"
  by (auto simp: matching_def in_scope_def str_cluster_def split: option.splits)

lemma tab_synced [simp]: "tab k' (synced entity k m ds e) = tab k' e"
  by (simp add: synced_def)

lemma fault_synced [simp]: "fault (synced entity k m ds e) = fault e"
  by (simp add: synced_def)

lemma members_static: "tab k e' = tab k e \<Longrightarrow> members k c objs e' = members k c objs e"
  by (simp add: members_def find_entity_def)

lemma keys_of_current:
  "find_label lid e = Some l \<Longrightarrow> fst ` set (current k c lid e) = ent_name ` set (members k c (assigned k l) e)"
  by (simp add: current_def keys_group)

lemma to_remove_of_current:
  "find_label lid e = Some l \<Longrightarrow>
   set (to_remove (current k c lid e) ds) = ent_id ` {y \<in> set (members k c (assigned k l) e). ent_name y \<notin> set ds}"
  by (simp add: current_def to_remove_group)

lemma names_after_sync:
  assumes p: "param k m = Some ds" and real: "\<not> check_mode m"
    and d: "distinct (map ent_id (tab k e))"
    and r: "update_label_assignments entity k m e = (Inr m', e', evs)"
  shows "set (assigned_names k (p_cluster m) (lab_id entity) e') =
     {n \<in> set ds. n \<in> set (assigned_names k (p_cluster m) (lab_id entity) e) \<or>
                    matching k n (p_cluster m) e \<noteq> []}"
proof -
  let ?lid = "lab_id entity" and ?c = "p_cluster m"
  note fe = sync_returns [OF p r]
  then obtain l where l: "find_label ?lid e = Some l"
    by (auto simp: feasible_def split: option.splits)
  from sync_feasible [OF p fe] r have e': "e' = synced entity k m ds e" by simp
  let ?A = "set (assigned k l)"
  let ?M = "set (members k ?c (assigned k l) e)"
  let ?adds = "set (to_add k ?c (current k ?c ?lid e) ds e)"
  let ?rems = "set (to_remove (current k ?c ?lid e) ds)"
  from assigned_synced [OF l, of k m ds] real obtain l' where
    l': "find_label ?lid e' = Some l'" and A': "set (assigned k l') = (?A \<union> ?adds) - ?rems"
    by (auto simp: e')
  have M: "?M = {y. \<exists>i\<in>?A. find_entity k i e = Some y \<and> in_scope ?c y}"
    by (rule members_set)
  have adds: "?adds = {ent_id x |x n. n \<in> set ds \<and> n \<notin> ent_name ` ?M \<and> x \<in> set (matching k n ?c e)}"
    by (simp add: to_add_set keys_of_current [OF l])
  have rems: "?rems = ent_id ` {y \<in> ?M. ent_name y \<notin> set ds}"
    by (rule to_remove_of_current [OF l])
  have f1: "ent_id y = i" if "find_entity k i e = Some y" for i y
    using that by (rule find_entity_id)
  have f2: "find_entity k (ent_id x) e = Some x \<and> ent_name x = n \<and> in_scope ?c x"
    if "x \<in> set (matching k n ?c e)" for x n
    using matching_member [OF that] find_entity_distinct [OF d] by blast
  have before: "set (assigned_names k ?c ?lid e) = ent_name ` ?M"
    by (simp add: assigned_names_def l)
  have "members k ?c (assigned k l') e' = members k ?c (assigned k l') e"
    by (rule members_static) (simp add: e')
  then have after: "set (assigned_names k ?c ?lid e') =
      ent_name ` {y. \<exists>i\<in>(?A \<union> ?adds) - ?rems. find_entity k i e = Some y \<and> in_scope ?c y}"
    by (simp add: assigned_names_def l' members_set A')
  show ?thesis
    unfolding after before
  proof (intro equalityI subsetI)
    fix n
    assume "n \<in> ent_name ` {y. \<exists>i\<in>(?A \<union> ?adds) - ?rems. find_entity k i e = Some y \<and> in_scope ?c y}"
    then obtain y i where y: "n = ent_name y" "find_entity k i e = Some y" "in_scope ?c y"
      and i: "i \<in> ?A \<union> ?adds" "i \<notin> ?rems" by blast
    from i(1) show "n \<in> {n \<in> set ds. n \<in> ent_name ` ?M \<or> matching k n ?c e \<noteq> []}"
    proof
      assume "i \<in> ?A"
      with y have yM: "y \<in> ?M" unfolding M by blast
      have "ent_name y \<in> set ds"
      proof (rule ccontr)
        assume "ent_name y \<notin> set ds"
        with yM have "ent_id y \<in> ?rems" unfolding rems by blast
        with f1 [OF y(2)] i(2) show False by simp
      qed
      with yM y(1) show ?thesis by blast
    next
      assume "i \<in> ?adds"
      then obtain x n' where x: "i = ent_id x" "n' \<in> set ds" "x \<in> set (matching k n' ?c e)"
        unfolding adds by blast
      from f2 [OF x(3)] x(1) y(2) have "y = x" "ent_name x = n'" by simp_all
      with x y(1) show ?thesis by auto
    qed
  next
    fix n
    assume "n \<in> {n \<in> set ds. n \<in> ent_name ` ?M \<or> matching k n ?c e \<noteq> []}"
    then have n: "n \<in> set ds" and alt: "n \<in> ent_name ` ?M \<or> matching k n ?c e \<noteq> []" by simp_all
    have kept: "i \<notin> ?rems" if "find_entity k i e = Some y" "ent_name y \<in> set ds" for i y
    proof
      assume "i \<in> ?rems"
      then obtain y' where y': "y' \<in> ?M" "ent_name y' \<notin> set ds" "i = ent_id y'"
        unfolding rems by blast
      from y'(1) obtain j where "find_entity k j e = Some y'" unfolding M by blast
      with f1 [OF this] y'(3) that(1) have "y' = y" by simp
      with y'(2) that(2) show False by simp
    qed
    show "n \<in> ent_name ` {y. \<exists>i\<in>(?A \<union> ?adds) - ?rems. find_entity k i e = Some y \<and> in_scope ?c y}"
    proof (cases "n \<in> ent_name ` ?M")
      case True
      then obtain y i where y: "n = ent_name y" "i \<in> ?A" "find_entity k i e = Some y" "in_scope ?c y"
        unfolding M by blast
      from kept [OF y(3)] y(1) n have "i \<notin> ?rems" by simp
      with y show ?thesis by blast
    next
      case False
      with alt obtain x where x: "x \<in> set (matching k n ?c e)" by (cases "matching k n ?c e") auto
      note fx = f2 [OF x]
      from x n False have "ent_id x \<in> ?adds" unfolding adds by blast
      moreover from kept [of "ent_id x" x] fx n have "ent_id x \<notin> ?rems" by simp
      ultimately show ?thesis using fx by blast
    qed
  qed
qed

subsection \<open>A second synchronisation\<close>

lemma to_add_empty_iff:
  "to_add k c names ds e = [] \<longleftrightarrow> (\<forall>n\<in>set ds. n \<notin> fst ` set names \<longrightarrow> matching k n c e = [])"
  by (auto simp: to_add_def missing_def)

lemma to_remove_empty: "stale names ds = [] \<Longrightarrow> to_remove names ds = []"
  by (simp add: to_remove_def)

lemma settled_after_sync:
  assumes p: "param k m = Some ds" and real: "\<not> check_mode m"
    and d: "distinct (map ent_id (tab k e))"
    and r: "update_label_assignments entity k m e = (Inr m', e', evs)"
  shows "to_add k (p_cluster m) (current k (p_cluster m) (lab_id entity) e') ds e' = []"
    and "stale (current k (p_cluster m) (lab_id entity) e') ds = []"
proof -
  let ?lid = "lab_id entity" and ?c = "p_cluster m"
  note fe = sync_returns [OF p r]
  then obtain l where l: "find_label ?lid e = Some l"
    by (auto simp: feasible_def split: option.splits)
  from sync_feasible [OF p fe] r have e': "e' = synced entity k m ds e" by simp
  from assigned_synced [OF l, of k m ds] obtain l' where l': "find_label ?lid e' = Some l'"
    by (auto simp: e')
  have keys: "fst ` set (current k ?c ?lid e') = set (assigned_names k ?c ?lid e')"
    by (simp add: keys_of_current [OF l'] assigned_names_def l')
  note after = names_after_sync [OF p real d r]
  have m: "matching k n ?c e' = matching k n ?c e" for n
    by (rule matching_static) (simp add: e')
  show "to_add k ?c (current k ?c ?lid e') ds e' = []"
    unfolding to_add_empty_iff keys after m by blast
  show "stale (current k ?c ?lid e') ds = []"
    unfolding stale_empty_iff keys after by blast
qed

lemma settled_sync_is_idle:
  assumes "to_add k (p_cluster m) (current k (p_cluster m) (lab_id entity) e) ds e = []"
    and "stale (current k (p_cluster m) (lab_id entity) e) ds = []"
    and "param k m = Some ds"
    and "update_label_assignments entity k m e = (Inr m', e', evs)"
  shows "m' = m \<and> e' = e \<and> filter is_mutation evs = []"
proof -
  from sync_feasible [OF assms(3) sync_returns [OF assms(3,4)]] assms(4) have
    "m' = mark (sync_changed entity k m ds e) m" "e' = synced entity k m ds e"
    "evs = sync_events entity k m ds e" by simp_all
  with assms(1,2) show ?thesis
    by (simp add: sync_changed_def synced_def mutations_of_sync to_remove_empty)
qed

lemma second_sync_is_idle:
  assumes p: "param k m = Some ds" and real: "\<not> check_mode m"
    and d: "distinct (map ent_id (tab k e))"
    and r1: "update_label_assignments entity k m e = (Inr m1, e1, evs1)"
    and v: "same_view k (lab_id entity) e1 e2"
    and m2: "param k m2 = Some ds" "p_cluster m2 = p_cluster m"
    and r2: "update_label_assignments entity k m2 e2 = (Inr m3, e3, evs3)"
  shows "m3 = m2 \<and> e3 = e2 \<and> filter is_mutation evs3 = []"
proof -
  note s = settled_after_sync [OF p real d r1]
  have "to_add k (p_cluster m2) (current k (p_cluster m2) (lab_id entity) e2) ds e2 = []"
    using s(1) by (simp add: m2 same_view_current [OF v] same_view_to_add [OF v])
  moreover have "stale (current k (p_cluster m2) (lab_id entity) e2) ds = []"
    using s(2) by (simp add: m2 same_view_current [OF v])
  ultimately show ?thesis using m2(1) r2 by (rule settled_sync_is_idle)
qed

lemma unset_sync_is_idle:
  "param k m = None \<Longrightarrow> update_label_assignments entity k m e = (Inr m', e', evs) \<Longrightarrow>
   m' = m \<and> e' = e \<and> filter is_mutation evs = []"
  by (simp add: update_label_assignments_def io_return_def)

subsection \<open>Removing the label\<close>

lemma removal_calls:
  assumes p: "param k m = Some []" and real: "\<not> check_mode m"
    and r: "update_label_assignments entity k m e = (Inr m', e', evs)"
    and l: "find_label (lab_id entity) e = Some l"
    and x: "x \<in> set (members k (p_cluster m) (assigned k l) e)"
  shows "RemoveAssignment k (lab_id entity) (ent_id x) \<in> set evs"
proof -
  from sync_result(3) [OF r] p have "evs = sync_events entity k m [] e" by simp
  then have "filter is_mutation evs =
      map (AddAssignment k (lab_id entity))
        (to_add k (p_cluster m) (current k (p_cluster m) (lab_id entity) e) [] e) @
      map (RemoveAssignment k (lab_id entity))
        (to_remove (current k (p_cluster m) (lab_id entity) e) [])"
    by (simp add: mutations_of_sync real)
  moreover from x have "ent_id x \<in> set (to_remove (current k (p_cluster m) (lab_id entity) e) [])"
    unfolding to_remove_of_current [OF l] by simp
  ultimately have "RemoveAssignment k (lab_id entity) (ent_id x) \<in> set (filter is_mutation evs)"
    by simp
  then show ?thesis by simp
qed

lemma pre_remove_Inr:
  assumes "pre_remove entity m e = (Inr m', e', evs)"
  shows "\<exists>b. update_check entity (m\<lparr>p_vms := Some [], p_hosts := Some []\<rparr>) e = (Inr (b, m'), e', evs)"
proof -
  from assms obtain rr e1 evs1 evs2 where
    u: "update_check entity (m\<lparr>p_vms := Some [], p_hosts := Some []\<rparr>) e = (Inr rr, e1, evs1)" and
    v: "io_return (snd rr) e1 = (Inr m', e', evs2)" and evs: "evs = evs1 @ evs2"
    unfolding pre_remove_def by (rule io_bind_InrE)
  from v have "snd rr = m'" "e1 = e'" "evs2 = []" by (simp_all add: io_return_def)
  with u evs show ?thesis by (cases rr) auto
qed

lemma same_view_label:
  assumes "same_view k lid e e'" and "find_label lid e = Some l"
  shows "\<exists>l'. find_label lid e' = Some l' \<and> assigned k l' = assigned k l"
  using assms by (cases "find_label lid e'") (auto simp: same_view_def)

lemma pre_remove_calls:
  assumes real: "\<not> check_mode m"
    and r: "pre_remove entity m e = (Inr m', e', evs)"
    and l: "find_label (lab_id entity) e = Some l"
    and x: "x \<in> set (members k (p_cluster m) (assigned k l) e)"
  shows "RemoveAssignment k (lab_id entity) (ent_id x) \<in> set evs"
proof -
  let ?m0 = "m\<lparr>p_vms := Some [], p_hosts := Some []\<rparr>"
  from pre_remove_Inr [OF r] obtain b where u: "update_check entity ?m0 e = (Inr (b, m'), e', evs)" ..
  then obtain ma ea evsa evsb where
    v: "update_label_assignments entity Vms ?m0 e = (Inr ma, ea, evsa)" and
    h: "update_label_assignments entity Hosts ma ea = (Inr m', e', evsb)" and
    evs: "evs = evsa @ evsb"
    by (rule update_check_InrE)
  have m0: "param Vms ?m0 = Some []" "param Hosts ?m0 = Some []" "\<not> check_mode ?m0"
    "p_cluster ?m0 = p_cluster m"
    using real by (simp_all add: param_def)
  show ?thesis
  proof (cases k)
    case Vms
    from removal_calls [OF m0(1) m0(3) v l] x Vms have
      "RemoveAssignment k (lab_id entity) (ent_id x) \<in> set evsa" by simp
    then show ?thesis by (simp add: evs)
  next
    case Hosts
    have ma: "param Hosts ma = Some []" "\<not> check_mode ma" "p_cluster ma = p_cluster m"
      using sync_params [OF v, of Hosts] sync_check_mode [OF v] m0 by simp_all
    have sv: "same_view Hosts (lab_id entity) e ea" using v by (rule sync_leaves_other_kind) simp
    from same_view_label [OF sv l] obtain la where
      la: "find_label (lab_id entity) ea = Some la" "assigned Hosts la = assigned Hosts l" by blast
    have "members Hosts (p_cluster ma) (assigned Hosts la) ea = members Hosts (p_cluster m) (assigned Hosts l) e"
      by (simp add: ma la same_view_members [OF sv])
    with x Hosts have "x \<in> set (members Hosts (p_cluster ma) (assigned Hosts la) ea)" by simp
    from removal_calls [OF ma(1,2) h la(1) this] Hosts show ?thesis by (simp add: evs)
  qed
qed

lemma pre_remove_check_mode:
  "pre_remove entity m e = (Inr m', e', evs) \<Longrightarrow> check_mode m' = check_mode m"
proof -
  assume "pre_remove entity m e = (Inr m', e', evs)"
  from pre_remove_Inr [OF this] obtain b where
    "update_check entity (m\<lparr>p_vms := Some [], p_hosts := Some []\<rparr>) e = (Inr (b, m'), e', evs)" ..
  then obtain ma ea evsa evsb where
    v: "update_label_assignments entity Vms (m\<lparr>p_vms := Some [], p_hosts := Some []\<rparr>) e = (Inr ma, ea, evsa)" and
    h: "update_label_assignments entity Hosts ma ea = (Inr m', e', evsb)"
    by (rule update_check_InrE)
  from sync_check_mode [OF v] sync_check_mode [OF h] show ?thesis by simp
qed

lemma find_label_removed: "find_label lid (e\<lparr>labels := filter (\<lambda>l. lab_id l \<noteq> lid) (labels e)\<rparr>) = None"
  by (simp add: find_label_def find_None_iff)

lemma remove_found:
  assumes real: "\<not> check_mode m"
    and f: "find (\<lambda>l. lab_name l = p_name m) (labels e) = Some entity"
    and r: "remove m e = (Inr m', e', evs)"
  shows "changed m' \<and> find_label (lab_id entity) e' = None \<and>
     (\<exists>evs1. evs = ListLabels (p_name m) # evs1 @ [RemoveLabel (lab_id entity)] \<and>
        (\<forall>k l x. find_label (lab_id entity) e = Some l \<and> x \<in> set (members k (p_cluster m) (assigned k l) e) \<longrightarrow>
           RemoveAssignment k (lab_id entity) (ent_id x) \<in> set evs1))"
proof -
  from r obtain found e0 evs0 evsA where
    s: "search_entity m e = (Inr found, e0, evs0)" and
    rest: "(case found of None \<Rightarrow> io_return m
          | Some entity \<Rightarrow>
              io_bind (pre_remove entity m) (\<lambda>m1.
              io_bind (if \<not> check_mode m1 then service_remove (lab_id entity) else io_return ()) (\<lambda>_.
              io_return (m1\<lparr>changed := True\<rparr>)))) e0 = (Inr m', e', evsA)" and
    evs: "evs = evs0 @ evsA"
    unfolding remove_def by (rule io_bind_InrE)
  from s f have found: "found = Some entity" and e0: "e0 = e" and evs0: "evs0 = [ListLabels (p_name m)]"
    by (auto simp: search_entity_def io_bind_def request_def io_return_def split: if_splits)
  from rest found e0 obtain m1 e1 evs1 evsB where
    pr: "pre_remove entity m e = (Inr m1, e1, evs1)" and
    rest2: "io_bind (if \<not> check_mode m1 then service_remove (lab_id entity) else io_return ()) (\<lambda>_.
              io_return (m1\<lparr>changed := True\<rparr>)) e1 = (Inr m', e', evsB)" and
    evsA: "evsA = evs1 @ evsB"
    by (auto elim: io_bind_InrE)
  have "\<not> check_mode m1" using pre_remove_check_mode [OF pr] real by simp
  with rest2 obtain u e2 evs2 evs3 where
    sr: "service_remove (lab_id entity) e1 = (Inr u, e2, evs2)" and
    fin: "io_return (m1\<lparr>changed := True\<rparr>) e2 = (Inr m', e', evs3)" and
    evsB: "evsB = evs2 @ evs3"
    by (auto elim: io_bind_InrE)
  from sr have e2: "e2 = e1\<lparr>labels := filter (\<lambda>l. lab_id l \<noteq> lab_id entity) (labels e1)\<rparr>"
    and evs2: "evs2 = [RemoveLabel (lab_id entity)]"
    by (auto simp: service_remove_def io_bind_def request_def io_return_def io_raise_def
        split: if_splits option.splits)
  from fin have m': "m' = m1\<lparr>changed := True\<rparr>" and e': "e' = e2" and evs3: "evs3 = []"
    by (simp_all add: io_return_def)
  have "evs = ListLabels (p_name m) # evs1 @ [RemoveLabel (lab_id entity)]"
    by (simp add: evs evs0 evsA evsB evs2 evs3)
  moreover have "changed m'" by (simp add: m')
  moreover have "find_label (lab_id entity) e' = None" by (simp add: e' e2 find_label_removed)
  moreover have "RemoveAssignment k (lab_id entity) (ent_id x) \<in> set evs1"
    if "find_label (lab_id entity) e = Some l" "x \<in> set (members k (p_cluster m) (assigned k l) e)" for k l x
    using pre_remove_calls [OF real pr that] .
  ultimately show ?thesis by blast
qed

lemma remove_not_found:
  assumes f: "find (\<lambda>l. lab_name l = p_name m) (labels e) = None"
    and r: "remove m e = (Inr m', e', evs)"
  shows "m' = m \<and> e' = e \<and> evs = [ListLabels (p_name m)]"
  using assms
  by (auto simp: remove_def search_entity_def io_bind_def request_def io_return_def split: if_splits)

section \<open>Skipping a kind, rejecting an invocation, closing the connection\<close>

text \<open>
  C5. When the list of a kind is unset (\<^verbatim>\<open>None\<close>), the synchronisation of that kind
  does nothing: it returns at once with the module unchanged (so the changed flag is
  what it was), the engine unchanged (so the assignments are what they were) and no
  remote call issued.
\<close>

theorem skip_unset_kind:
  "param k m = None \<Longrightarrow> update_label_assignments entity k m e = (Inr m, e, [])"
  by (simp add: update_label_assignments_def io_return_def)

theorem skip_unset_kind_witness:
  "param Hosts ex_module = None \<and>
   update_label_assignments ex_label Hosts ex_module ex_engine = (Inr ex_module, ex_engine, [])"
  using skip_unset_kind [of Hosts ex_module ex_label ex_engine]
  by (simp add: param_def ex_module_def)

text \<open>
  C9. An invocation with \<^verbatim>\<open>state=present\<close> and no cluster is rejected, the engine is
  left as it was and no remote call is issued, not even the creation of the connection.
\<close>

theorem present_without_cluster_rejected:
  "p_state m = Present \<Longrightarrow> p_cluster m = None \<Longrightarrow> main sdk m e = (InvalidArguments, e, [])"
  by (simp add: main_def required_if_def)

theorem present_without_cluster_rejected_witness:
  "p_state (ex_module\<lparr>p_cluster := None\<rparr>) = Present \<and>
   p_cluster (ex_module\<lparr>p_cluster := None\<rparr>) = None \<and>
   main True (ex_module\<lparr>p_cluster := None\<rparr>) ex_engine = (InvalidArguments, ex_engine, [])"
  using present_without_cluster_rejected [of "ex_module\<lparr>p_cluster := None\<rparr>" True ex_engine]
  by (simp add: ex_module_def)

text \<open>
  C8, as stated, fails when the creation of the connection itself raises: the
  \<^verbatim>\<open>finally\<close> clause finds no connection and no close call is issued.
\<close>

theorem creation_failure_never_closes:
  "required_if ex_module \<and>
   fst (main True ex_module ex_engine_down) = Uncaught UnboundLocalError \<and>
   CloseConnection \<notin> set (snd (snd (main True ex_module ex_engine_down)))"
  by (simp add: main_def required_if_def ex_module_def ex_engine_down_def
      create_connection_def request_def)

text \<open>
  C8, amended. For every execution of \<open>main\<close> that passes the pre-checks and in which
  the creation of the connection succeeds, the close call is the last remote call of the
  run, whether the work in between succeeded or raised.
\<close>

theorem connection_closed_after_creation:
  assumes "required_if m" and "sdk" and "\<not> fault e CreateConnection"
    and "main sdk m e = (out, e', evs)"
  shows "\<exists>body. evs = CreateConnection # body @ [CloseConnection]"
  using assms
  by (auto simp: main_def create_connection_def connection_close_def request_def
      split: prod.splits sum.splits if_splits)

theorem connection_closed_after_creation_witness:
  "required_if ex_module \<and> \<not> fault ex_engine CreateConnection \<and>
   (\<exists>body. snd (snd (main True ex_module ex_engine)) = CreateConnection # body @ [CloseConnection])"
proof -
  have a: "required_if ex_module" by (simp add: required_if_def ex_module_def)
  have b: "\<not> fault ex_engine CreateConnection" by (simp add: ex_engine_def)
  obtain out e' evs where m: "main True ex_module ex_engine = (out, e', evs)"
    by (cases "main True ex_module ex_engine") auto
  from connection_closed_after_creation [OF a _ b m] a b m show ?thesis by simp
qed

section \<open>Synchronising the assignments\<close>

text \<open>
  C3. In check mode the synchronisation of both kinds leaves the engine as it was and
  issues no mutating call, whatever its result; and whenever the same call outside check
  mode, from the same engine, returns, the dry run returns too, with the same changed
  flag.
\<close>

theorem dry_run_reports_same_change:
  assumes "check_mode m"
  shows "(\<forall>r e' evs. update_check entity m e = (r, e', evs) \<longrightarrow>
            e' = e \<and> (\<forall>ev\<in>set evs. \<not> is_mutation ev)) \<and>
         (\<forall>b m' e' evs. update_check entity (m\<lparr>check_mode := False\<rparr>) e = (Inr (b, m'), e', evs) \<longrightarrow>
            (\<exists>m'' evs'. update_check entity m e = (Inr (b, m''), e, evs') \<and> changed m'' = changed m'))"
proof (intro conjI allI impI)
  fix r e' evs
  assume "update_check entity m e = (r, e', evs)"
  with quiet_update_check [OF assms, of entity] show "e' = e" "\<forall>ev\<in>set evs. \<not> is_mutation ev"
    by (auto simp: quiet_def)
next
  fix b m' e' evs
  let ?real = "m\<lparr>check_mode := False\<rparr>"
  assume "update_check entity ?real e = (Inr (b, m'), e', evs)"
  then obtain m1 e1 evs1 evs2 where
    v: "update_label_assignments entity Vms ?real e = (Inr m1, e1, evs1)" and
    h: "update_label_assignments entity Hosts m1 e1 = (Inr m', e', evs2)" and b: "b"
    by (rule update_check_InrE)
  from dry_of_real [OF v] assms obtain evs1' where
    v': "update_label_assignments entity Vms m e = (Inr (m1\<lparr>check_mode := True\<rparr>), e, evs1')"
    by (auto simp: check_mode_True)
  from sync_leaves_other_kind [OF v, of Hosts "lab_id entity"] have "same_view Hosts (lab_id entity) e e1"
    by simp
  from sync_same_view [OF this h] obtain e2 evs3 where
    "update_label_assignments entity Hosts m1 e = (Inr m', e2, evs3)" by blast
  from dry_of_real [OF this] obtain evs2' where
    h': "update_label_assignments entity Hosts (m1\<lparr>check_mode := True\<rparr>) e = (Inr (m'\<lparr>check_mode := True\<rparr>), e, evs2')"
    by blast
  from update_check_Inr [OF v' h'] b
  show "\<exists>m'' evs'. update_check entity m e = (Inr (b, m''), e, evs') \<and> changed m'' = changed m'"
    by auto
qed


theorem dry_run_reports_same_change_witness:
  "check_mode (ex_module\<lparr>check_mode := True\<rparr>) \<and>
   fst (snd (update_check ex_label (ex_module\<lparr>check_mode := True\<rparr>) ex_engine)) = ex_engine \<and>
   filter is_mutation (snd (snd (update_check ex_label (ex_module\<lparr>check_mode := True\<rparr>) ex_engine))) = [] \<and>
   (\<exists>m'' evs'. update_check ex_label (ex_module\<lparr>check_mode := True\<rparr>) ex_engine =
        (Inr (True, m''), ex_engine, evs') \<and> changed m'')"
proof -
  let ?dry = "ex_module\<lparr>check_mode := True\<rparr>"
  have h: "check_mode ?dry" by simp
  note t = dry_run_reports_same_change [OF h, of ex_label ex_engine]
  obtain r e' evs where d: "update_check ex_label ?dry ex_engine = (r, e', evs)"
    by (cases "update_check ex_label ?dry ex_engine") auto
  from t d have q: "e' = ex_engine" "\<forall>ev\<in>set evs. \<not> is_mutation ev" by blast+
  have real: "update_check ex_label (?dry\<lparr>check_mode := False\<rparr>) ex_engine =
      (Inr (True, ex_module\<lparr>changed := True\<rparr>),
       ex_engine\<lparr>labels := [ex_label\<lparr>lab_vms := [''1'', ''2'', ''4'']\<rparr>]\<rparr>,
       [FollowLink Vms ''L'', GetEntity Vms ''2'', FollowCluster Vms ''2'',
        GetEntity Vms ''3'', FollowCluster Vms ''3'', GetEntity Vms ''4'', FollowCluster Vms ''4'',
        ListSearch Vms ''name=vm1 and cluster=mycluster'',
        AddAssignment Vms ''L'' ''1'', RemoveAssignment Vms ''L'' ''3''])"
    by (simp add: run_defs ex_defs)
  from t real obtain m'' evs' where
    "update_check ex_label ?dry ex_engine = (Inr (True, m''), ex_engine, evs')"
    "changed m'' = changed (ex_module\<lparr>changed := True\<rparr>)"
    by blast
  with h d q show ?thesis by (auto simp: filter_empty_conv)
qed

text \<open>
  C7, as stated, fails for additions: when two hosts share the desired name and neither
  is assigned, both are added, not only the first.
\<close>

theorem one_name_two_adds:
  "snd (snd (update_label_assignments ex_label Hosts ex_module_hosts ex_engine)) =
     [FollowLink Hosts ''L'', ListSearch Hosts ''name=h and cluster=mycluster'',
      AddAssignment Hosts ''L'' ''7'', AddAssignment Hosts ''L'' ''8'']"
  by (simp add: run_defs ex_defs)

text \<open>
  C7, amended. In a synchronisation outside check mode that returns: for every desired
  name that no assigned entity inside the cluster filter bears, every entity that the
  name+cluster search returns receives an add call; and every assigned entity inside the
  cluster filter whose name is not desired receives a remove call, so entities that
  share such a name are all removed.
\<close>

theorem every_match_added_every_grouped_id_removed:
  assumes "param k m = Some ds" and "\<not> check_mode m"
    and "find_label (lab_id entity) e = Some l"
    and "update_label_assignments entity k m e = (Inr m', e', evs)"
  shows "(\<forall>n\<in>set ds. n \<notin> ent_name ` set (members k (p_cluster m) (assigned k l) e) \<longrightarrow>
            (\<forall>x\<in>set (matching k n (p_cluster m) e). AddAssignment k (lab_id entity) (ent_id x) \<in> set evs)) \<and>
         (\<forall>x\<in>set (members k (p_cluster m) (assigned k l) e). ent_name x \<notin> set ds \<longrightarrow>
            RemoveAssignment k (lab_id entity) (ent_id x) \<in> set evs)"
proof -
  let ?names = "current k (p_cluster m) (lab_id entity) e"
  have names: "?names = group (members k (p_cluster m) (assigned k l) e) []"
    by (simp add: current_def assms(3))
  from sync_result(3) [OF assms(4)] assms(1) have "evs = sync_events entity k m ds e" by simp
  then have muts: "filter is_mutation evs =
      map (AddAssignment k (lab_id entity)) (to_add k (p_cluster m) ?names ds e) @
      map (RemoveAssignment k (lab_id entity)) (to_remove ?names ds)"
    by (simp add: mutations_of_sync assms(2))
  have keys: "fst ` set ?names = ent_name ` set (members k (p_cluster m) (assigned k l) e)"
    by (simp add: names keys_group)
  have rem: "set (to_remove ?names ds) =
      ent_id ` {x \<in> set (members k (p_cluster m) (assigned k l) e). ent_name x \<notin> set ds}"
    by (simp add: names to_remove_group)
  show ?thesis
  proof (intro conjI ballI impI)
    fix n x
    assume "n \<in> set ds" "n \<notin> ent_name ` set (members k (p_cluster m) (assigned k l) e)"
      "x \<in> set (matching k n (p_cluster m) e)"
    then have "ent_id x \<in> set (to_add k (p_cluster m) ?names ds e)"
      unfolding to_add_set keys by blast
    then have "AddAssignment k (lab_id entity) (ent_id x) \<in> set (filter is_mutation evs)"
      unfolding muts by simp
    then show "AddAssignment k (lab_id entity) (ent_id x) \<in> set evs" by simp
  next
    fix x
    assume "x \<in> set (members k (p_cluster m) (assigned k l) e)" "ent_name x \<notin> set ds"
    then have "ent_id x \<in> set (to_remove ?names ds)" unfolding rem by blast
    then have "RemoveAssignment k (lab_id entity) (ent_id x) \<in> set (filter is_mutation evs)"
      unfolding muts by simp
    then show "RemoveAssignment k (lab_id entity) (ent_id x) \<in> set evs" by simp
  qed
qed


theorem every_match_added_every_grouped_id_removed_witness:
  "param Hosts ex_module_hosts = Some [''h''] \<and> \<not> check_mode ex_module_hosts \<and>
   find_label (lab_id ex_label_shared) ex_engine_shared = Some ex_label_shared \<and>
   snd (snd (update_label_assignments ex_label_shared Hosts ex_module_hosts ex_engine_shared)) =
     [FollowLink Hosts ''L'', GetEntity Hosts ''9'', FollowCluster Hosts ''9'',
      GetEntity Hosts ''10'', FollowCluster Hosts ''10'',
      ListSearch Hosts ''name=h and cluster=mycluster'',
      AddAssignment Hosts ''L'' ''7'', AddAssignment Hosts ''L'' ''8'',
      RemoveAssignment Hosts ''L'' ''9'', RemoveAssignment Hosts ''L'' ''10''] \<and>
   AddAssignment Hosts ''L'' ''7''
     \<in> set (snd (snd (update_label_assignments ex_label_shared Hosts ex_module_hosts ex_engine_shared))) \<and>
   AddAssignment Hosts ''L'' ''8''
     \<in> set (snd (snd (update_label_assignments ex_label_shared Hosts ex_module_hosts ex_engine_shared))) \<and>
   RemoveAssignment Hosts ''L'' ''9''
     \<in> set (snd (snd (update_label_assignments ex_label_shared Hosts ex_module_hosts ex_engine_shared))) \<and>
   RemoveAssignment Hosts ''L'' ''10''
     \<in> set (snd (snd (update_label_assignments ex_label_shared Hosts ex_module_hosts ex_engine_shared)))"
proof -
  have p: "param Hosts ex_module_hosts = Some [''h'']" by (simp add: param_def ex_defs)
  have c: "\<not> check_mode ex_module_hosts" by (simp add: ex_defs)
  have l: "find_label (lab_id ex_label_shared) ex_engine_shared = Some ex_label_shared"
    by (simp add: find_label_def ex_defs)
  have run: "update_label_assignments ex_label_shared Hosts ex_module_hosts ex_engine_shared =
      (Inr (ex_module_hosts\<lparr>changed := True\<rparr>),
       ex_engine_shared\<lparr>labels := [ex_label_shared\<lparr>lab_hosts := [''8'', ''7'']\<rparr>]\<rparr>,
       [FollowLink Hosts ''L'', GetEntity Hosts ''9'', FollowCluster Hosts ''9'',
        GetEntity Hosts ''10'', FollowCluster Hosts ''10'',
        ListSearch Hosts ''name=h and cluster=mycluster'',
        AddAssignment Hosts ''L'' ''7'', AddAssignment Hosts ''L'' ''8'',
        RemoveAssignment Hosts ''L'' ''9'', RemoveAssignment Hosts ''L'' ''10''])"
    by (simp add: run_defs ex_defs)
  then obtain m' e' evs where
    r: "update_label_assignments ex_label_shared Hosts ex_module_hosts ex_engine_shared = (Inr m', e', evs)"
    by blast
  note t = every_match_added_every_grouped_id_removed [OF p c l r]
  have mem: "members Hosts (p_cluster ex_module_hosts) (assigned Hosts ex_label_shared) ex_engine_shared =
      [\<lparr>ent_id = ''9'', ent_name = ''g'', ent_cluster = ''mycluster''\<rparr>,
       \<lparr>ent_id = ''10'', ent_name = ''g'', ent_cluster = ''mycluster''\<rparr>]"
    by (simp add: members_def List.map_filter_simps find_entity_def tab_def assigned_def in_scope_def ex_defs)
  have mat: "matching Hosts ''h'' (p_cluster ex_module_hosts) ex_engine_shared =
      [\<lparr>ent_id = ''7'', ent_name = ''h'', ent_cluster = ''mycluster''\<rparr>,
       \<lparr>ent_id = ''8'', ent_name = ''h'', ent_cluster = ''mycluster''\<rparr>]"
    by (simp add: matching_def tab_def str_cluster_def ex_defs)
  have lid: "lab_id ex_label_shared = ''L''" by (simp add: ex_defs)
  from t have a: "AddAssignment Hosts ''L'' ''7'' \<in> set evs" "AddAssignment Hosts ''L'' ''8'' \<in> set evs"
    by (simp_all add: mem mat lid)
  from t have b: "RemoveAssignment Hosts ''L'' ''9'' \<in> set evs" "RemoveAssignment Hosts ''L'' ''10'' \<in> set evs"
    by (simp_all add: mem mat lid)
  from run r have "snd (snd (update_label_assignments ex_label_shared Hosts ex_module_hosts ex_engine_shared)) =
     [FollowLink Hosts ''L'', GetEntity Hosts ''9'', FollowCluster Hosts ''9'',
      GetEntity Hosts ''10'', FollowCluster Hosts ''10'',
      ListSearch Hosts ''name=h and cluster=mycluster'',
      AddAssignment Hosts ''L'' ''7'', AddAssignment Hosts ''L'' ''8'',
      RemoveAssignment Hosts ''L'' ''9'', RemoveAssignment Hosts ''L'' ''10'']"
    by simp
  moreover from r have "snd (snd (update_label_assignments ex_label_shared Hosts ex_module_hosts ex_engine_shared)) = evs"
    by simp
  ultimately show ?thesis using p c l a b by simp
qed

text \<open>
  C10. Let a desired name be borne by no assigned entity inside the cluster filter, and
  let its name+cluster search return, with no entity. Then the synchronisation behaves as
  if the name were not in the list: it returns in exactly the same cases, and then with
  the same engine, the same changed flag and the same add and remove calls. So the name
  causes no add call, no error and no change.
\<close>

theorem unresolvable_name_skipped:
  assumes "param k m = Some ds"
    and "n \<notin> fst ` set (current k (p_cluster m) (lab_id entity) e)"
    and "matching k n (p_cluster m) e = []"
    and "\<not> fault e (ListSearch k (search_query n (p_cluster m)))"
  shows "(\<exists>m' evs. update_label_assignments entity k m e = (Inr m', e', evs) \<and>
            changed m' = b \<and> filter is_mutation evs = muts) \<longleftrightarrow>
         (\<exists>m' evs. update_label_assignments entity k (set_param k (Some (removeAll n ds)) m) e = (Inr m', e', evs) \<and>
            changed m' = b \<and> filter is_mutation evs = muts)"
proof -
  let ?m2 = "set_param k (Some (removeAll n ds)) m" and ?ds2 = "removeAll n ds"
  have p2: "param k ?m2 = Some ?ds2" by simp
  note f = feasible_removeAll [OF assms(2,3,4), of ds]
  note pl = plan_removeAll [OF assms(2,3), of ds]
  show ?thesis
  proof
    assume "\<exists>m' evs. update_label_assignments entity k m e = (Inr m', e', evs) \<and>
        changed m' = b \<and> filter is_mutation evs = muts"
    then obtain m' evs where r: "update_label_assignments entity k m e = (Inr m', e', evs)"
      and b: "changed m' = b" and mu: "filter is_mutation evs = muts" by blast
    note fe = sync_returns [OF assms(1) r]
    from sync_feasible [OF assms(1) fe] r have
      "m' = mark (sync_changed entity k m ds e) m" "e' = synced entity k m ds e"
      "evs = sync_events entity k m ds e" by simp_all
    with sync_feasible [OF p2, of entity e] fe f pl b mu
    show "\<exists>m' evs. update_label_assignments entity k ?m2 e = (Inr m', e', evs) \<and>
        changed m' = b \<and> filter is_mutation evs = muts"
      by simp
  next
    assume "\<exists>m' evs. update_label_assignments entity k ?m2 e = (Inr m', e', evs) \<and>
        changed m' = b \<and> filter is_mutation evs = muts"
    then obtain m' evs where r: "update_label_assignments entity k ?m2 e = (Inr m', e', evs)"
      and b: "changed m' = b" and mu: "filter is_mutation evs = muts" by blast
    note fe = sync_returns [OF p2 r]
    from sync_feasible [OF p2 fe] r have
      "m' = mark (sync_changed entity k ?m2 ?ds2 e) ?m2" "e' = synced entity k ?m2 ?ds2 e"
      "evs = sync_events entity k ?m2 ?ds2 e" by simp_all
    with sync_feasible [OF assms(1), of entity e] fe f pl b mu
    show "\<exists>m' evs. update_label_assignments entity k m e = (Inr m', e', evs) \<and>
        changed m' = b \<and> filter is_mutation evs = muts"
      by simp
  qed
qed


theorem unresolvable_name_skipped_witness:
  "param Vms ex_module_ghost = Some [''ghost'', ''vm1'', ''vm2''] \<and>
   ''ghost'' \<notin> fst ` set (current Vms (p_cluster ex_module_ghost) (lab_id ex_label) ex_engine) \<and>
   matching Vms ''ghost'' (p_cluster ex_module_ghost) ex_engine = [] \<and>
   \<not> fault ex_engine (ListSearch Vms (search_query ''ghost'' (p_cluster ex_module_ghost))) \<and>
   (\<exists>m' evs.
      update_label_assignments ex_label Vms
        (set_param Vms (Some (removeAll ''ghost'' [''ghost'', ''vm1'', ''vm2''])) ex_module_ghost) ex_engine =
        (Inr m', ex_engine\<lparr>labels := [ex_label\<lparr>lab_vms := [''1'', ''2'', ''4'']\<rparr>]\<rparr>, evs) \<and>
      changed m' = True \<and>
      filter is_mutation evs = [AddAssignment Vms ''L'' ''1'', RemoveAssignment Vms ''L'' ''3''])"
proof -
  have h1: "param Vms ex_module_ghost = Some [''ghost'', ''vm1'', ''vm2'']"
    by (simp add: param_def ex_defs)
  have h2: "''ghost'' \<notin> fst ` set (current Vms (p_cluster ex_module_ghost) (lab_id ex_label) ex_engine)"
    by (simp add: current_def group_def members_def List.map_filter_simps find_label_def
        find_entity_def tab_def assigned_def in_scope_def ex_defs)
  have h3: "matching Vms ''ghost'' (p_cluster ex_module_ghost) ex_engine = []"
    by (simp add: matching_def tab_def str_cluster_def ex_defs)
  have h4: "\<not> fault ex_engine (ListSearch Vms (search_query ''ghost'' (p_cluster ex_module_ghost)))"
    by (simp add: ex_defs)
  have run: "update_label_assignments ex_label Vms ex_module_ghost ex_engine =
      (Inr (ex_module_ghost\<lparr>changed := True\<rparr>),
       ex_engine\<lparr>labels := [ex_label\<lparr>lab_vms := [''1'', ''2'', ''4'']\<rparr>]\<rparr>,
       [FollowLink Vms ''L'', GetEntity Vms ''2'', FollowCluster Vms ''2'',
        GetEntity Vms ''3'', FollowCluster Vms ''3'', GetEntity Vms ''4'', FollowCluster Vms ''4'',
        ListSearch Vms ''name=ghost and cluster=mycluster'',
        ListSearch Vms ''name=vm1 and cluster=mycluster'',
        AddAssignment Vms ''L'' ''1'', RemoveAssignment Vms ''L'' ''3''])"
    by (simp add: run_defs ex_defs)
  have "\<exists>m' evs. update_label_assignments ex_label Vms ex_module_ghost ex_engine =
      (Inr m', ex_engine\<lparr>labels := [ex_label\<lparr>lab_vms := [''1'', ''2'', ''4'']\<rparr>]\<rparr>, evs) \<and>
      changed m' = True \<and>
      filter is_mutation evs = [AddAssignment Vms ''L'' ''1'', RemoveAssignment Vms ''L'' ''3'']"
    by (simp add: run is_mutation_def)
  with unresolvable_name_skipped [OF h1 h2 h3 h4] h1 h2 h3 h4 show ?thesis by blast
qed

text \<open>
  C6. With a cluster filter given, let an entity lie in another cluster. In every
  synchronisation that returns: no remove call is issued for it; if it was assigned to
  the label it still is; its id is grouped under none of the current names; and the
  synchronisation from the engine in which it is not assigned returns too, with the same
  changed flag and the same add and remove calls.
\<close>

theorem off_cluster_assignment_ignored:
  assumes "p_cluster m = Some s" and "find_entity k i e = Some x" and "ent_cluster x \<noteq> s"
    and "update_label_assignments entity k m e = (Inr m', e', evs)"
  shows "RemoveAssignment k (lab_id entity) i \<notin> set evs \<and>
         (\<forall>l. find_label (lab_id entity) e = Some l \<and> i \<in> set (assigned k l) \<longrightarrow>
              (\<exists>l'. find_label (lab_id entity) e' = Some l' \<and> i \<in> set (assigned k l'))) \<and>
         (\<forall>entry\<in>set (current k (p_cluster m) (lab_id entity) e). i \<notin> set (snd entry)) \<and>
         (\<exists>e'' evs''. update_label_assignments entity k m (unassign k (lab_id entity) i e) = (Inr m', e'', evs'') \<and>
              filter is_mutation evs'' = filter is_mutation evs)"
proof -
  let ?lid = "lab_id entity" and ?c = "p_cluster m"
  let ?names = "current k ?c ?lid e"
  have out: "\<not> in_scope ?c x" using assms(1,3) by (simp add: in_scope_def)
  have counted: "\<forall>entry\<in>set ?names. i \<notin> set (snd entry)"
  proof (cases "find_label ?lid e")
    case None
    then show ?thesis by (simp add: current_def)
  next
    case (Some l)
    from ids_of_current [OF Some, of k ?c] out_of_scope_not_member [OF assms(2) out, of "assigned k l"]
    show ?thesis by blast
  qed
  then have not_removed: "i \<notin> set (to_remove ?names ds)" for ds
    using to_remove_subset [of ?names ds] by blast
  show ?thesis
  proof (cases "param k m")
    case None
    with assms(4) have "m' = m" "e' = e" "evs = []"
      by (simp_all add: update_label_assignments_def io_return_def)
    moreover from None have
      "update_label_assignments entity k m (unassign k ?lid i e) = (Inr m, unassign k ?lid i e, [])"
      by (simp add: update_label_assignments_def io_return_def)
    ultimately show ?thesis using counted by simp
  next
    case (Some ds)
    note fe = sync_returns [OF Some assms(4)]
    from sync_feasible [OF Some fe] assms(4) have
      m': "m' = mark (sync_changed entity k m ds e) m" and e': "e' = synced entity k m ds e" and
      evs: "evs = sync_events entity k m ds e" by simp_all
    have a: "RemoveAssignment k ?lid i \<notin> set evs"
    proof
      assume "RemoveAssignment k ?lid i \<in> set evs"
      then have "RemoveAssignment k ?lid i \<in> set (filter is_mutation evs)"
        by (simp add: is_mutation_def)
      then show False using not_removed [of ds]
        by (auto simp: evs mutations_of_sync split: if_splits)
    qed
    have b: "\<exists>l'. find_label ?lid e' = Some l' \<and> i \<in> set (assigned k l')"
      if "find_label ?lid e = Some l" "i \<in> set (assigned k l)" for l
      using assigned_synced [OF that(1), of k m ds] that(2) not_removed [of ds]
      by (auto simp: e' split: if_splits)
    note fe2 = feasible_unassign_out_of_scope [OF assms(2) out fe]
    from sync_feasible [OF Some fe2] plan_unassign_out_of_scope [OF assms(2) out, of entity ds]
    have c: "\<exists>e'' evs''. update_label_assignments entity k m (unassign k ?lid i e) = (Inr m', e'', evs'') \<and>
        filter is_mutation evs'' = filter is_mutation evs"
      by (simp add: m' evs)
    from a b c counted show ?thesis by blast
  qed
qed


theorem off_cluster_assignment_ignored_witness:
  "p_cluster ex_module = Some ''mycluster'' \<and>
   find_entity Vms ''4'' ex_engine = Some \<lparr>ent_id = ''4'', ent_name = ''vm4'', ent_cluster = ''other''\<rparr> \<and>
   ent_cluster \<lparr>ent_id = ''4'', ent_name = ''vm4'', ent_cluster = ''other''\<rparr> \<noteq> ''mycluster'' \<and>
   RemoveAssignment Vms ''L'' ''4'' \<notin> set (snd (snd (update_label_assignments ex_label Vms ex_module ex_engine))) \<and>
   (\<exists>l'. find_label ''L'' (fst (snd (update_label_assignments ex_label Vms ex_module ex_engine))) = Some l' \<and>
      ''4'' \<in> set (assigned Vms l')) \<and>
   (\<exists>e'' evs''. update_label_assignments ex_label Vms ex_module (unassign Vms ''L'' ''4'' ex_engine) =
        (Inr (ex_module\<lparr>changed := True\<rparr>), e'', evs'') \<and>
      filter is_mutation evs'' = [AddAssignment Vms ''L'' ''1'', RemoveAssignment Vms ''L'' ''3''])"
proof -
  have h1: "p_cluster ex_module = Some ''mycluster''" by (simp add: ex_defs)
  have h2: "find_entity Vms ''4'' ex_engine = Some \<lparr>ent_id = ''4'', ent_name = ''vm4'', ent_cluster = ''other''\<rparr>"
    by (simp add: find_entity_def tab_def ex_defs)
  have h3: "ent_cluster \<lparr>ent_id = ''4'', ent_name = ''vm4'', ent_cluster = ''other''\<rparr> \<noteq> ''mycluster''"
    by simp
  have run: "update_label_assignments ex_label Vms ex_module ex_engine =
      (Inr (ex_module\<lparr>changed := True\<rparr>),
       ex_engine\<lparr>labels := [ex_label\<lparr>lab_vms := [''1'', ''2'', ''4'']\<rparr>]\<rparr>,
       [FollowLink Vms ''L'', GetEntity Vms ''2'', FollowCluster Vms ''2'',
        GetEntity Vms ''3'', FollowCluster Vms ''3'', GetEntity Vms ''4'', FollowCluster Vms ''4'',
        ListSearch Vms ''name=vm1 and cluster=mycluster'',
        AddAssignment Vms ''L'' ''1'', RemoveAssignment Vms ''L'' ''3''])"
    by (simp add: run_defs ex_defs)
  have l: "find_label ''L'' ex_engine = Some ex_label" "''4'' \<in> set (assigned Vms ex_label)"
    "lab_id ex_label = ''L''"
    by (simp_all add: find_label_def assigned_def ex_defs)
  note t = off_cluster_assignment_ignored [OF h1 h2 h3 run, unfolded l(3)]
  from t l have "\<exists>l'. find_label ''L'' (ex_engine\<lparr>labels := [ex_label\<lparr>lab_vms := [''1'', ''2'', ''4'']\<rparr>]\<rparr>) = Some l' \<and>
      ''4'' \<in> set (assigned Vms l')" by blast
  moreover from t have "RemoveAssignment Vms ''L'' ''4'' \<notin> set (snd (snd (update_label_assignments ex_label Vms ex_module ex_engine)))"
    by (simp add: run)
  moreover from t have "\<exists>e'' evs''. update_label_assignments ex_label Vms ex_module (unassign Vms ''L'' ''4'' ex_engine) =
        (Inr (ex_module\<lparr>changed := True\<rparr>), e'', evs'') \<and>
      filter is_mutation evs'' = [AddAssignment Vms ''L'' ''1'', RemoveAssignment Vms ''L'' ''3'']"
    by (simp add: is_mutation_def)
  ultimately show ?thesis using h1 h2 h3 by (simp add: run)
qed

text \<open>
  C1. Let the list of a kind be given, let every desired name resolve through the
  name+cluster search to at least one entity, and let the ids of the entities of that
  kind be pairwise distinct. After a synchronisation outside check mode that returns,
  the names of the entities of that kind that are assigned to the label and lie inside
  the cluster filter are, as a set, the desired names.
\<close>

theorem desired_names_assigned:
  assumes "param k m = Some ds" and "\<not> check_mode m"
    and "distinct (map ent_id (tab k e))"
    and "\<forall>n\<in>set ds. matching k n (p_cluster m) e \<noteq> []"
    and "update_label_assignments entity k m e = (Inr m', e', evs)"
  shows "set (assigned_names k (p_cluster m) (lab_id entity) e') = set ds"
  using names_after_sync [OF assms(1,2,3,5)] assms(4) by blast

theorem desired_names_assigned_witness:
  "param Vms ex_module = Some [''vm1'', ''vm2''] \<and> \<not> check_mode ex_module \<and>
   distinct (map ent_id (tab Vms ex_engine)) \<and>
   matching Vms ''vm1'' (p_cluster ex_module) ex_engine \<noteq> [] \<and>
   matching Vms ''vm2'' (p_cluster ex_module) ex_engine \<noteq> [] \<and>
   fst (update_label_assignments ex_label Vms ex_module ex_engine) = Inr (ex_module\<lparr>changed := True\<rparr>) \<and>
   set (assigned_names Vms (Some ''mycluster'') ''L''
          (fst (snd (update_label_assignments ex_label Vms ex_module ex_engine)))) = {''vm1'', ''vm2''}"
proof -
  have h1: "param Vms ex_module = Some [''vm1'', ''vm2'']" by (simp add: param_def ex_defs)
  have h2: "\<not> check_mode ex_module" by (simp add: ex_defs)
  have h3: "distinct (map ent_id (tab Vms ex_engine))" by (simp add: tab_def ex_defs)
  have a: "matching Vms ''vm1'' (p_cluster ex_module) ex_engine \<noteq> []"
    and b: "matching Vms ''vm2'' (p_cluster ex_module) ex_engine \<noteq> []"
    by (simp_all add: matching_def tab_def str_cluster_def ex_defs)
  then have h4: "\<forall>n\<in>set [''vm1'', ''vm2'']. matching Vms n (p_cluster ex_module) ex_engine \<noteq> []"
    by simp
  have run: "update_label_assignments ex_label Vms ex_module ex_engine =
      (Inr (ex_module\<lparr>changed := True\<rparr>),
       ex_engine\<lparr>labels := [ex_label\<lparr>lab_vms := [''1'', ''2'', ''4'']\<rparr>]\<rparr>,
       [FollowLink Vms ''L'', GetEntity Vms ''2'', FollowCluster Vms ''2'',
        GetEntity Vms ''3'', FollowCluster Vms ''3'', GetEntity Vms ''4'', FollowCluster Vms ''4'',
        ListSearch Vms ''name=vm1 and cluster=mycluster'',
        AddAssignment Vms ''L'' ''1'', RemoveAssignment Vms ''L'' ''3''])"
    by (simp add: run_defs ex_defs)
  have c: "p_cluster ex_module = Some ''mycluster''" "lab_id ex_label = ''L''" by (simp_all add: ex_defs)
  from desired_names_assigned [OF h1 h2 h3 h4 run] h1 h2 h3 a b show ?thesis
    by (simp add: run c insert_commute)
qed

text \<open>
  C2. Reconciliation is idempotent. When the synchronisation of both kinds has run
  outside check mode and returned, and is run a second time with the same parameters from
  the engine it left, the second run leaves the changed flag unset, leaves the engine as
  it is and issues no mutating call. The ids of the entities of each kind are pairwise
  distinct, as the engine keeps them.
\<close>

theorem second_run_reports_no_change:
  assumes real: "\<not> check_mode m" and fresh: "\<not> changed m"
    and dv: "distinct (map ent_id (tab Vms e))" and dh: "distinct (map ent_id (tab Hosts e))"
    and r1: "update_check entity m e = (Inr (b1, m1), e1, evs1)"
    and r2: "update_check entity m e1 = (Inr (b2, m2), e2, evs2)"
  shows "\<not> changed m2 \<and> e2 = e1 \<and> filter is_mutation evs2 = []"
proof -
  let ?lid = "lab_id entity"
  from r1 obtain ma ea evsa evsb where
    v1: "update_label_assignments entity Vms m e = (Inr ma, ea, evsa)" and
    h1: "update_label_assignments entity Hosts ma ea = (Inr m1, e1, evsb)"
    by (rule update_check_InrE)
  from r2 obtain mb eb evsc evsd where
    v2: "update_label_assignments entity Vms m e1 = (Inr mb, eb, evsc)" and
    h2: "update_label_assignments entity Hosts mb eb = (Inr m2, e2, evsd)" and
    ev2: "evs2 = evsc @ evsd"
    by (rule update_check_InrE)
  have vms_idle: "mb = m \<and> eb = e1 \<and> filter is_mutation evsc = []"
  proof (cases "param Vms m")
    case None
    then show ?thesis using v2 by (rule unset_sync_is_idle)
  next
    case (Some ds)
    have "same_view Vms ?lid ea e1" using h1 by (rule sync_leaves_other_kind) simp
    from second_sync_is_idle [OF Some real dv v1 this Some refl v2] show ?thesis .
  qed
  have ma: "check_mode ma = check_mode m" "p_cluster ma = p_cluster m" "param Hosts ma = param Hosts m"
    using sync_check_mode [OF v1] sync_params [OF v1, of Hosts] by simp_all
  have "same_view Hosts ?lid e ea" using v1 by (rule sync_leaves_other_kind) simp
  then have dh': "distinct (map ent_id (tab Hosts ea))" using dh by (simp add: same_view_def)
  have hosts_idle: "m2 = mb \<and> e2 = eb \<and> filter is_mutation evsd = []"
  proof (cases "param Hosts m")
    case None
    with vms_idle have "param Hosts mb = None" by simp
    then show ?thesis using h2 by (rule unset_sync_is_idle)
  next
    case (Some ds)
    have pa: "param Hosts ma = Some ds" using Some ma by simp
    have ra: "\<not> check_mode ma" using real ma by simp
    have pb: "param Hosts mb = Some ds" "p_cluster mb = p_cluster ma" using Some vms_idle ma by simp_all
    have "same_view Hosts ?lid e1 eb" using vms_idle by simp
    from second_sync_is_idle [OF pa ra dh' h1 this pb h2] show ?thesis .
  qed
  from vms_idle hosts_idle fresh ev2 show ?thesis by simp
qed

theorem second_run_reports_no_change_witness:
  "\<not> check_mode ex_module \<and> \<not> changed ex_module \<and>
   distinct (map ent_id (tab Vms ex_engine)) \<and> distinct (map ent_id (tab Hosts ex_engine)) \<and>
   fst (update_check ex_label ex_module ex_engine) = Inr (True, ex_module\<lparr>changed := True\<rparr>) \<and>
   fst (snd (update_check ex_label ex_module ex_engine)) = ex_engine_synced \<and>
   fst (update_check ex_label ex_module ex_engine_synced) = Inr (True, ex_module) \<and>
   fst (snd (update_check ex_label ex_module ex_engine_synced)) = ex_engine_synced \<and>
   filter is_mutation (snd (snd (update_check ex_label ex_module ex_engine_synced))) = []"
proof -
  have h1: "\<not> check_mode ex_module" and h2: "\<not> changed ex_module" by (simp_all add: ex_defs)
  have h3: "distinct (map ent_id (tab Vms ex_engine))" and h4: "distinct (map ent_id (tab Hosts ex_engine))"
    by (simp_all add: tab_def ex_defs)
  have r1: "update_check ex_label ex_module ex_engine =
      (Inr (True, ex_module\<lparr>changed := True\<rparr>), ex_engine_synced,
       [FollowLink Vms ''L'', GetEntity Vms ''2'', FollowCluster Vms ''2'',
        GetEntity Vms ''3'', FollowCluster Vms ''3'', GetEntity Vms ''4'', FollowCluster Vms ''4'',
        ListSearch Vms ''name=vm1 and cluster=mycluster'',
        AddAssignment Vms ''L'' ''1'', RemoveAssignment Vms ''L'' ''3''])"
    by (simp add: run_defs ex_defs)
  obtain m2 evs2 e2 where r2: "update_check ex_label ex_module ex_engine_synced = (Inr (True, m2), e2, evs2)"
    by (simp add: run_defs ex_defs)
  from second_run_reports_no_change [OF h1 h2 h3 h4 r1 r2] have
    t: "\<not> changed m2" "e2 = ex_engine_synced" "filter is_mutation evs2 = []" by simp_all
  have "fst (update_check ex_label ex_module ex_engine_synced) = Inr (True, ex_module)"
    by (simp add: run_defs ex_defs)
  with h1 h2 h3 h4 r1 r2 t show ?thesis by simp
qed

section \<open>Removing the label with its assignments\<close>

text \<open>
  C4, as stated, fails when a cluster is given together with \<^verbatim>\<open>state=absent\<close>:
  \<^verbatim>\<open>pre_remove\<close> empties the two lists and keeps the cluster, so the assignment of a
  machine in another cluster receives no remove call before the label is deleted.
\<close>

theorem absent_keeps_off_cluster_assignment:
  "p_state ex_module_absent = Absent \<and>
   find_label ''L'' ex_engine = Some ex_label \<and> ''4'' \<in> set (lab_vms ex_label) \<and>
   fst (main True ex_module_absent ex_engine) = ExitJson True \<and>
   RemoveLabel ''L'' \<in> set (snd (snd (main True ex_module_absent ex_engine))) \<and>
   RemoveAssignment Vms ''L'' ''4'' \<notin> set (snd (snd (main True ex_module_absent ex_engine)))"
  by (simp add: main_defs run_defs ex_defs)

text \<open>
  C4, amended. For every invocation with \<^verbatim>\<open>state=absent\<close> outside check mode that
  ends with \<^verbatim>\<open>exit_json\<close>: if no label bears the name, changed is false, the engine is as
  it was and no mutating call was issued; if a label bears the name, changed is true, the
  label is gone, the deletion of the label is the last call before the connection is
  closed, and before it every entity of either kind that was assigned to the label inside
  the cluster filter (every assigned entity when no cluster is given) has received a
  remove call.
\<close>

theorem absent_removes_label:
  assumes "p_state m = Absent" and "sdk" and "\<not> check_mode m"
    and "main sdk m e = (ExitJson c, e', evs)"
  shows "(find (\<lambda>l. lab_name l = p_name m) (labels e) = None \<longrightarrow>
            \<not> c \<and> e' = e \<and> filter is_mutation evs = []) \<and>
         (\<forall>entity. find (\<lambda>l. lab_name l = p_name m) (labels e) = Some entity \<longrightarrow>
            c \<and> find_label (lab_id entity) e' = None \<and>
            (\<exists>pre. evs = pre @ [RemoveLabel (lab_id entity), CloseConnection] \<and>
               (\<forall>k l x. find_label (lab_id entity) e = Some l \<and>
                    x \<in> set (members k (p_cluster m) (assigned k l) e) \<longrightarrow>
                  RemoveAssignment k (lab_id entity) (ent_id x) \<in> set pre)))"
proof -
  let ?m0 = "m\<lparr>changed := False\<rparr>"
  from assms obtain m' evs2 where
    r: "remove ?m0 e = (Inr m', e', evs2)" and c: "c = changed m'" and
    evs: "evs = CreateConnection # evs2 @ [CloseConnection]"
    by (auto simp: main_def required_if_def create_connection_def connection_close_def request_def
        split: if_splits prod.splits sum.splits)
  have m0: "\<not> check_mode ?m0" "p_name ?m0 = p_name m" "p_cluster ?m0 = p_cluster m"
    using assms(3) by simp_all
  show ?thesis
  proof (intro conjI allI impI)
    assume "find (\<lambda>l. lab_name l = p_name m) (labels e) = None"
    then have "find (\<lambda>l. lab_name l = p_name ?m0) (labels e) = None" by simp
    from remove_not_found [OF this r] c evs
    show "\<not> c" "e' = e" "filter is_mutation evs = []"
      by (simp_all add: is_mutation_def)
  next
    fix entity
    assume "find (\<lambda>l. lab_name l = p_name m) (labels e) = Some entity"
    then have f: "find (\<lambda>l. lab_name l = p_name ?m0) (labels e) = Some entity" by simp
    note t = remove_found [OF m0(1) f r]
    from t c show "c" by simp
    from t show "find_label (lab_id entity) e' = None" by simp
    from t obtain evs1 where
      e1: "evs2 = ListLabels (p_name m) # evs1 @ [RemoveLabel (lab_id entity)]" and
      calls: "\<forall>k l x. find_label (lab_id entity) e = Some l \<and>
          x \<in> set (members k (p_cluster m) (assigned k l) e) \<longrightarrow>
          RemoveAssignment k (lab_id entity) (ent_id x) \<in> set evs1"
      by (auto simp: m0)
    have "evs = (CreateConnection # ListLabels (p_name m) # evs1) @ [RemoveLabel (lab_id entity), CloseConnection]"
      by (simp add: evs e1)
    moreover have "\<forall>k l x. find_label (lab_id entity) e = Some l \<and>
          x \<in> set (members k (p_cluster m) (assigned k l) e) \<longrightarrow>
          RemoveAssignment k (lab_id entity) (ent_id x) \<in> set (CreateConnection # ListLabels (p_name m) # evs1)"
      using calls by simp
    ultimately show "\<exists>pre. evs = pre @ [RemoveLabel (lab_id entity), CloseConnection] \<and>
        (\<forall>k l x. find_label (lab_id entity) e = Some l \<and>
             x \<in> set (members k (p_cluster m) (assigned k l) e) \<longrightarrow>
           RemoveAssignment k (lab_id entity) (ent_id x) \<in> set pre)"
      by blast
  qed
qed


theorem absent_removes_label_witness:
  "p_state ex_module_absent = Absent \<and> \<not> check_mode ex_module_absent \<and>
   find (\<lambda>l. lab_name l = p_name ex_module_absent) (labels ex_engine) = Some ex_label \<and>
   fst (main True ex_module_absent ex_engine) = ExitJson True \<and>
   find_label ''L'' (fst (snd (main True ex_module_absent ex_engine))) = None \<and>
   (\<exists>pre. snd (snd (main True ex_module_absent ex_engine)) = pre @ [RemoveLabel ''L'', CloseConnection] \<and>
      RemoveAssignment Vms ''L'' ''2'' \<in> set pre \<and> RemoveAssignment Vms ''L'' ''3'' \<in> set pre)"
proof -
  have h1: "p_state ex_module_absent = Absent" and h3: "\<not> check_mode ex_module_absent"
    by (simp_all add: ex_defs)
  have f: "find (\<lambda>l. lab_name l = p_name ex_module_absent) (labels ex_engine) = Some ex_label"
    by (simp add: ex_defs)
  have run: "main True ex_module_absent ex_engine = (ExitJson True, ex_engine\<lparr>labels := []\<rparr>,
      [CreateConnection, ListLabels ''mylabel'', FollowLink Vms ''L'',
       GetEntity Vms ''2'', FollowCluster Vms ''2'', GetEntity Vms ''3'', FollowCluster Vms ''3'',
       GetEntity Vms ''4'', FollowCluster Vms ''4'',
       RemoveAssignment Vms ''L'' ''2'', RemoveAssignment Vms ''L'' ''3'',
       FollowLink Hosts ''L'', RemoveLabel ''L'', CloseConnection])"
    by (simp add: main_defs run_defs ex_defs)
  have l: "find_label (lab_id ex_label) ex_engine = Some ex_label" and lid: "lab_id ex_label = ''L''"
    by (simp_all add: find_label_def ex_defs)
  have mem: "members Vms (p_cluster ex_module_absent) (assigned Vms ex_label) ex_engine =
      [\<lparr>ent_id = ''2'', ent_name = ''vm2'', ent_cluster = ''mycluster''\<rparr>,
       \<lparr>ent_id = ''3'', ent_name = ''vm3'', ent_cluster = ''mycluster''\<rparr>]"
    by (simp add: members_def List.map_filter_simps find_entity_def tab_def assigned_def in_scope_def ex_defs)
  note t = absent_removes_label [OF h1 TrueI h3 run]
  from t f have gone: "find_label (lab_id ex_label) (ex_engine\<lparr>labels := []\<rparr>) = None" by blast
  from t f obtain pre where
    pre: "[CreateConnection, ListLabels ''mylabel'', FollowLink Vms ''L'',
       GetEntity Vms ''2'', FollowCluster Vms ''2'', GetEntity Vms ''3'', FollowCluster Vms ''3'',
       GetEntity Vms ''4'', FollowCluster Vms ''4'',
       RemoveAssignment Vms ''L'' ''2'', RemoveAssignment Vms ''L'' ''3'',
       FollowLink Hosts ''L'', RemoveLabel ''L'', CloseConnection] =
       pre @ [RemoveLabel (lab_id ex_label), CloseConnection]" and
    calls: "\<forall>k l x. find_label (lab_id ex_label) ex_engine = Some l \<and>
        x \<in> set (members k (p_cluster ex_module_absent) (assigned k l) ex_engine) \<longrightarrow>
        RemoveAssignment k (lab_id ex_label) (ent_id x) \<in> set pre"
    by blast
  from calls l mem have
    "RemoveAssignment Vms (lab_id ex_label) (ent_id \<lparr>ent_id = ''2'', ent_name = ''vm2'', ent_cluster = ''mycluster''\<rparr>) \<in> set pre"
    "RemoveAssignment Vms (lab_id ex_label) (ent_id \<lparr>ent_id = ''3'', ent_name = ''vm3'', ent_cluster = ''mycluster''\<rparr>) \<in> set pre"
    by (metis list.set_intros(1), metis list.set_intros(1,2))
  with pre gone h1 h3 f show ?thesis
    unfolding run lid by (intro conjI exI [of _ pre]) simp_all
qed

end
